theory Spec2Isabelle
  imports Main
begin

section \<open>Run registry (pi-embedded-runner.ts)\<close>

text \<open>
  The registry is the pair of process-wide maps \<open>ACTIVE_EMBEDDED_RUNS\<close> and
  \<open>EMBEDDED_RUN_WAITERS\<close>.  A queue handle is an object of four closures; the model
  keeps what the closures answer when they are called (\<open>isStreaming()\<close>,
  \<open>isCompacting()\<close>) and what they do to the session behind them: the texts handed to
  \<open>session.steer\<close>, in order, and the number of \<open>abortRun()\<close> calls.
\<close>

record EmbeddedPiQueueHandle =
  h_isStreaming :: bool
  h_isCompacting :: bool
  steered :: "string list"
  abortCalls :: nat

text \<open>
  A waiter is identified by a number (object identity in the source).  Its timer is
  armed with a delay in milliseconds; its promise is settled at most once, and
  \<open>resolved\<close> records the value of the first \<open>resolve\<close> call.  A JavaScript \<open>Set\<close>
  iterates in insertion order, so a waiter set is a list without repetition.
\<close>

record registry =
  ACTIVE_EMBEDDED_RUNS :: "string \<rightharpoonup> EmbeddedPiQueueHandle"
  EMBEDDED_RUN_WAITERS :: "string \<rightharpoonup> nat list"
  timers :: "nat \<rightharpoonup> int"
  resolved :: "nat \<rightharpoonup> bool"
  nextWaiter :: nat

definition empty_registry :: registry where
  "empty_registry =
     \<lparr>ACTIVE_EMBEDDED_RUNS = Map.empty, EMBEDDED_RUN_WAITERS = Map.empty,
      timers = Map.empty, resolved = Map.empty, nextWaiter = 0\<rparr>"

definition queueEmbeddedPiMessage :: "string \<Rightarrow> string \<Rightarrow> registry \<Rightarrow> bool \<times> registry" where
  "queueEmbeddedPiMessage sessionId text r =
     (case ACTIVE_EMBEDDED_RUNS r sessionId of
        None \<Rightarrow> (False, r)
      | Some handle \<Rightarrow>
          if \<not> h_isStreaming handle then (False, r)
          else if h_isCompacting handle then (False, r)
          else (True,
                r\<lparr>ACTIVE_EMBEDDED_RUNS :=
                    (ACTIVE_EMBEDDED_RUNS r)(sessionId \<mapsto> handle\<lparr>steered := steered handle @ [text]\<rparr>)\<rparr>))"

definition abortEmbeddedPiRun :: "string \<Rightarrow> registry \<Rightarrow> bool \<times> registry" where
  "abortEmbeddedPiRun sessionId r =
     (case ACTIVE_EMBEDDED_RUNS r sessionId of
        None \<Rightarrow> (False, r)
      | Some handle \<Rightarrow>
          (True,
           r\<lparr>ACTIVE_EMBEDDED_RUNS :=
               (ACTIVE_EMBEDDED_RUNS r)(sessionId \<mapsto> handle\<lparr>abortCalls := Suc (abortCalls handle)\<rparr>)\<rparr>))"

definition isEmbeddedPiRunActive :: "string \<Rightarrow> registry \<Rightarrow> bool" where
  "isEmbeddedPiRunActive sessionId r = (ACTIVE_EMBEDDED_RUNS r sessionId \<noteq> None)"

definition isEmbeddedPiRunStreaming :: "string \<Rightarrow> registry \<Rightarrow> bool" where
  "isEmbeddedPiRunStreaming sessionId r =
     (case ACTIVE_EMBEDDED_RUNS r sessionId of None \<Rightarrow> False | Some handle \<Rightarrow> h_isStreaming handle)"

section \<open>JavaScript strings and the tag expressions (pi-embedded-subscribe.ts)\<close>

text \<open>
  A JavaScript string is a sequence of UTF-16 code units.  The model writes it as a
  \<open>string\<close>; a \<open>char\<close> stands for a code unit below 256.  In that range the white
  space of \<open>\s\<close>, \<open>trim\<close>, \<open>trimStart\<close> and \<open>trimEnd\<close> is TAB, LF, VT, FF, CR,
  SPACE and NBSP, and the \<open>i\<close> flag identifies a letter of a tag name with its ASCII
  upper case only.
\<close>

definition is_js_space :: "char \<Rightarrow> bool" where
  "is_js_space c =
     (c \<in> set [CHR 0x09, CHR 0x0A, CHR 0x0B, CHR 0x0C, CHR 0x0D, CHR 0x20, CHR 0xA0])"

definition trimStart :: "string \<Rightarrow> string" where
  "trimStart s = dropWhile is_js_space s"

definition trimEnd :: "string \<Rightarrow> string" where
  "trimEnd s = rev (dropWhile is_js_space (rev s))"

definition trim :: "string \<Rightarrow> string" where
  "trim s = trimStart (trimEnd s)"

definition slice :: "nat \<Rightarrow> nat \<Rightarrow> string \<Rightarrow> string" where
  "slice a b s = take (b - a) (drop a s)"

definition startsWith :: "string \<Rightarrow> string \<Rightarrow> bool" where
  "startsWith s p = (take (length p) s = p)"

fun includes_js :: "string \<Rightarrow> string \<Rightarrow> bool" where
  "includes_js [] p = (p = [])"
| "includes_js (c # cs) p = (startsWith (c # cs) p \<or> includes_js cs p)"

definition upper_of :: "char \<Rightarrow> char" where
  "upper_of l =
     (case map_of (zip ''abcdefghijklmnopqrstuvwxyz'' ''ABCDEFGHIJKLMNOPQRSTUVWXYZ'') l of
        Some u \<Rightarrow> u | None \<Rightarrow> l)"

text \<open>\<open>match_ci name s\<close>: the lower-case literal \<open>name\<close> matched at the start of \<open>s\<close>
  under the \<open>i\<close> flag; the rest of \<open>s\<close> after it.\<close>

fun match_ci :: "string \<Rightarrow> string \<Rightarrow> string option" where
  "match_ci [] s = Some s"
| "match_ci (l # ls) [] = None"
| "match_ci (l # ls) (c # cs) = (if c = l \<or> c = upper_of l then match_ci ls cs else None)"

text \<open>
  \<open>match_tag name opt s\<close> tries the expression
  \<^verbatim>\<open><\s*(\/?)\s*NAME(?:OPT)?\s*>\<close> at the start of \<open>s\<close> and gives the length of the
  match and whether the slash is there.  Every quantifier of the expression is
  followed by something it cannot match itself, so the greedy choice is the only one
  and no backtracking is lost.
\<close>

definition match_tag :: "string \<Rightarrow> string \<Rightarrow> string \<Rightarrow> (nat \<times> bool) option" where
  "match_tag name opt s =
     (case s of
        [] \<Rightarrow> None
      | c # r \<Rightarrow>
          if c \<noteq> CHR ''<'' then None
          else
            let r1 = dropWhile is_js_space r;
                isClose = (case r1 of [] \<Rightarrow> False | d # _ \<Rightarrow> d = CHR ''/'');
                r2 = (if isClose then tl r1 else r1);
                r3 = dropWhile is_js_space r2
            in case match_ci name r3 of
                 None \<Rightarrow> None
               | Some r4 \<Rightarrow>
                   let r5 = (case match_ci opt r4 of Some r' \<Rightarrow> r' | None \<Rightarrow> r4);
                       r6 = dropWhile is_js_space r5
                   in case r6 of
                        [] \<Rightarrow> None
                      | d # r7 \<Rightarrow>
                          if d = CHR ''>'' then Some (length s - length r7, isClose) else None)"

text \<open>The expressions of the source, as matchers at a position.  \<open>THINKING_TAG_RE\<close>
  and \<open>THINKING_TAG_SCAN_RE\<close> match the same texts; the source reads the slash from the
  matched text (\<open>tag.includes("/")\<close>) or from the group (\<open>match[1] === "/"\<close>).\<close>

definition THINKING_TAG_SCAN_RE :: "string \<Rightarrow> (nat \<times> bool) option" where
  "THINKING_TAG_SCAN_RE = match_tag ''think'' ''ing''"

definition THINKING_OPEN_RE :: "string \<Rightarrow> (nat \<times> bool) option" where
  "THINKING_OPEN_RE s =
     (case match_tag ''think'' ''ing'' s of
        Some (n, isClose) \<Rightarrow> if isClose then None else Some (n, isClose) | None \<Rightarrow> None)"

definition THINKING_CLOSE_RE :: "string \<Rightarrow> (nat \<times> bool) option" where
  "THINKING_CLOSE_RE s =
     (case match_tag ''think'' ''ing'' s of
        Some (n, isClose) \<Rightarrow> if isClose then Some (n, isClose) else None | None \<Rightarrow> None)"

definition FINAL_START_RE :: "string \<Rightarrow> (nat \<times> bool) option" where
  "FINAL_START_RE s =
     (case match_tag ''final'' [] s of
        Some (n, isClose) \<Rightarrow> if isClose then None else Some (n, isClose) | None \<Rightarrow> None)"

definition FINAL_END_RE :: "string \<Rightarrow> (nat \<times> bool) option" where
  "FINAL_END_RE s =
     (case match_tag ''final'' [] s of
        Some (n, isClose) \<Rightarrow> if isClose then Some (n, isClose) else None | None \<Rightarrow> None)"

text \<open>\<open>exec re s\<close>: the leftmost match, as (index, length, slash).  None of the
  expressions matches the empty string.\<close>

fun exec :: "(string \<Rightarrow> (nat \<times> bool) option) \<Rightarrow> string \<Rightarrow> (nat \<times> nat \<times> bool) option" where
  "exec re [] = None"
| "exec re (c # cs) =
     (case re (c # cs) of
        Some (n, b) \<Rightarrow> Some (0, n, b)
      | None \<Rightarrow> (case exec re cs of Some (i, n, b) \<Rightarrow> Some (Suc i, n, b) | None \<Rightarrow> None))"

definition test :: "(string \<Rightarrow> (nat \<times> bool) option) \<Rightarrow> string \<Rightarrow> bool" where
  "test re s = (exec re s \<noteq> None)"

text \<open>
  \<open>matchAll re s\<close>: the successive matches from left to right, each search starting
  where the previous match ended.  The source resets \<open>lastIndex\<close> to 0 after every
  successful \<open>test\<close> of a global expression, a failed \<open>test\<close> resets it itself, and
  \<open>matchAll\<close> works on a copy, so every search of the source starts at index 0.
  \<open>skip\<close> counts the characters of the current match still to pass.
\<close>

fun matchAll_from ::
  "(string \<Rightarrow> (nat \<times> bool) option) \<Rightarrow> nat \<Rightarrow> nat \<Rightarrow> string \<Rightarrow> (nat \<times> nat \<times> bool) list" where
  "matchAll_from re skip idx [] = []"
| "matchAll_from re skip idx (c # cs) =
     (if 0 < skip then matchAll_from re (skip - 1) (Suc idx) cs
      else case re (c # cs) of
             None \<Rightarrow> matchAll_from re 0 (Suc idx) cs
           | Some (n, b) \<Rightarrow> (idx, n, b) # matchAll_from re (n - 1) (Suc idx) cs)"

definition matchAll :: "(string \<Rightarrow> (nat \<times> bool) option) \<Rightarrow> string \<Rightarrow> (nat \<times> nat \<times> bool) list" where
  "matchAll re s = matchAll_from re 0 0 s"

text \<open>\<open>text.replace(re, "")\<close> for an expression without the \<open>g\<close> flag: the leftmost
  match is removed.\<close>

definition replace_first :: "(string \<Rightarrow> (nat \<times> bool) option) \<Rightarrow> string \<Rightarrow> string" where
  "replace_first re s =
     (case exec re s of None \<Rightarrow> s | Some (i, n, _) \<Rightarrow> take i s @ drop (i + n) s)"

text \<open>The loop body shared by \<open>stripThinkingSegments\<close> and
  \<open>stripBlockThinkingSegments\<close>: the state is (result, lastIndex, inThinking).\<close>

definition strip_step ::
  "string \<Rightarrow> string \<times> nat \<times> bool \<Rightarrow> nat \<times> nat \<times> bool \<Rightarrow> string \<times> nat \<times> bool" where
  "strip_step text st m =
     (case st of (result, lastIndex, inThinking) \<Rightarrow>
      case m of (idx, n, isClose) \<Rightarrow>
        ((if \<not> inThinking then result @ slice lastIndex idx text else result),
         idx + n, \<not> isClose))"

definition stripThinkingSegments :: "string \<Rightarrow> string" where
  "stripThinkingSegments text =
     (if text = [] \<or> \<not> test THINKING_TAG_SCAN_RE text then text
      else
        case foldl (strip_step text) ([], 0, False) (matchAll THINKING_TAG_SCAN_RE text) of
          (result, lastIndex, inThinking) \<Rightarrow>
            if \<not> inThinking then result @ drop lastIndex text else result)"

definition stripUnpairedThinkingTags :: "string \<Rightarrow> string" where
  "stripUnpairedThinkingTags text =
     (if text = [] then text
      else
        let hasOpen = test THINKING_OPEN_RE text;
            hasClose = test THINKING_CLOSE_RE text
        in if hasOpen \<and> hasClose then text
           else if \<not> hasOpen then replace_first THINKING_CLOSE_RE text
           else if \<not> hasClose then replace_first THINKING_OPEN_RE text
           else text)"

definition extract_step ::
  "string \<Rightarrow> string \<times> nat \<times> bool \<Rightarrow> nat \<times> nat \<times> bool \<Rightarrow> string \<times> nat \<times> bool" where
  "extract_step text st m =
     (case st of (result, lastIndex, inThinking) \<Rightarrow>
      case m of (idx, n, isClose) \<Rightarrow>
        ((if inThinking then result @ slice lastIndex idx text else result),
         idx + n, \<not> isClose))"

definition extractThinkingFromText :: "string \<Rightarrow> string" where
  "extractThinkingFromText text =
     (if text = [] \<or> \<not> test THINKING_TAG_SCAN_RE text then []
      else
        case foldl (extract_step text) ([], 0, False) (matchAll THINKING_TAG_SCAN_RE text) of
          (result, lastIndex, inThinking) \<Rightarrow> trim result)"

definition extractThinkingFromStream :: "string \<Rightarrow> string" where
  "extractThinkingFromStream text =
     (if text = [] then []
      else
        let closed = extractThinkingFromText text
        in if closed \<noteq> [] then closed
           else
             let openMatches = matchAll THINKING_OPEN_RE text
             in if openMatches = [] then []
                else
                  let closeMatches = matchAll THINKING_CLOSE_RE text;
                      lastOpen = last openMatches
                  in if closeMatches \<noteq> [] \<and> fst (last closeMatches) > fst lastOpen then closed
                     else trim (drop (fst lastOpen + fst (snd lastOpen)) text))"

definition formatReasoningDraft :: "string \<Rightarrow> string" where
  "formatReasoningDraft text =
     (let trimmed = trim text in if trimmed = [] then [] else ''Reasoning:'' @ [CHR 0x0A] @ trimmed)"

definition formatReasoningMarkdown :: "string \<Rightarrow> string" where
  "formatReasoningMarkdown text =
     (let trimmed = trim text in if trimmed = [] then [] else ''Reasoning:'' @ [CHR 0x0A] @ trimmed)"

definition sanitizeFinalText :: "string \<Rightarrow> string" where
  "sanitizeFinalText text =
     (if text = [] then text
      else
        let hasStart = test FINAL_START_RE text;
            hasEnd = test FINAL_END_RE text
        in if hasStart \<and> \<not> hasEnd then replace_first FINAL_START_RE text
           else if \<not> hasStart \<and> hasEnd then replace_first FINAL_END_RE text
           else text)"

definition extractFinalText :: "string \<Rightarrow> string option" where
  "extractFinalText text =
     (let cleaned = sanitizeFinalText text
      in case exec FINAL_START_RE cleaned of
           None \<Rightarrow> None
         | Some (index, n, _) \<Rightarrow>
             let afterStart = drop (index + n) cleaned;
                 endIndex = (case exec FINAL_END_RE afterStart of
                               Some (i, _, _) \<Rightarrow> i | None \<Rightarrow> length afterStart)
             in Some (take endIndex afterStart))"

section \<open>Assistant messages (pi-embedded-utils.ts, pi-embedded-subscribe.ts)\<close>

datatype content_block = TextBlock string | ThinkingBlock string | OtherBlock

text \<open>\<open>content = None\<close> stands for a \<open>content\<close> that is not an array.\<close>

record AgentMessage =
  role :: string
  content :: "content_block list option"

definition join_lines :: "string list \<Rightarrow> string" where
  "join_lines xs = (case xs of [] \<Rightarrow> [] | x # rest \<Rightarrow> foldl (\<lambda>a b. a @ [CHR 0x0A] @ b) x rest)"

definition extractAssistantText :: "AgentMessage \<Rightarrow> string" where
  "extractAssistantText msg =
     (let blocks =
            (case content msg of
               Some cs \<Rightarrow>
                 filter (\<lambda>t. t \<noteq> [])
                   (concat (map (\<lambda>b. case b of TextBlock t \<Rightarrow> [trim t] | _ \<Rightarrow> []) cs))
             | None \<Rightarrow> [])
      in trim (join_lines blocks))"

definition extractAssistantThinking :: "AgentMessage \<Rightarrow> string" where
  "extractAssistantThinking msg =
     (case content msg of
        None \<Rightarrow> []
      | Some cs \<Rightarrow>
          trim (join_lines
            (filter (\<lambda>t. t \<noteq> [])
               (map (\<lambda>b. case b of ThinkingBlock t \<Rightarrow> trim t | _ \<Rightarrow> []) cs))))"

definition pushText :: "string \<Rightarrow> content_block list \<Rightarrow> content_block list" where
  "pushText v blocks = (if v = [] then blocks else blocks @ [TextBlock v])"

definition pushThinking :: "string \<Rightarrow> content_block list \<Rightarrow> content_block list" where
  "pushThinking v blocks =
     (let cleaned = trim v in if cleaned = [] then blocks else blocks @ [ThinkingBlock cleaned])"

text \<open>The loop of \<open>splitThinkingTaggedText\<close>; the state is
  (inThinking, cursor, thinkingStart, blocks).\<close>

definition split_step ::
  "string \<Rightarrow> bool \<times> nat \<times> nat \<times> content_block list \<Rightarrow> nat \<times> nat \<times> bool
     \<Rightarrow> bool \<times> nat \<times> nat \<times> content_block list" where
  "split_step text st m =
     (case st of (inThinking, cursor, thinkingStart, blocks) \<Rightarrow>
      case m of (index, n, isClose) \<Rightarrow>
        if \<not> inThinking \<and> \<not> isClose
        then (True, cursor, index + n, pushText (slice cursor index text) blocks)
        else if inThinking \<and> isClose
        then (False, index + n, thinkingStart, pushThinking (slice thinkingStart index text) blocks)
        else st)"

definition splitThinkingTaggedText :: "string \<Rightarrow> content_block list option" where
  "splitThinkingTaggedText text =
     (let trimmedStart = trimStart text
      in if \<not> startsWith trimmedStart ''<'' then None
         else if \<not> test THINKING_OPEN_RE trimmedStart then None
         else if \<not> test THINKING_CLOSE_RE text then None
         else
           case foldl (split_step text) (False, 0, 0, []) (matchAll THINKING_TAG_SCAN_RE text) of
             (inThinking, cursor, thinkingStart, blocks) \<Rightarrow>
               if inThinking then None
               else
                 let blocks' = pushText (drop cursor text) blocks
                 in if \<not> (\<exists>b \<in> set blocks'. case b of ThinkingBlock _ \<Rightarrow> True | _ \<Rightarrow> False)
                    then None else Some blocks')"

text \<open>\<open>promoteThinkingTagsToBlocks\<close> rewrites the message in place; the model returns
  the rewritten message.  When no text block splits, the list built by the loop is the
  old content, so assigning it is the same as the source's early return.\<close>

definition promoteThinkingTagsToBlocks :: "AgentMessage \<Rightarrow> AgentMessage" where
  "promoteThinkingTagsToBlocks message =
     (case content message of
        None \<Rightarrow> message
      | Some cs \<Rightarrow>
          if (\<exists>b \<in> set cs. case b of ThinkingBlock _ \<Rightarrow> True | _ \<Rightarrow> False) then message
          else
            message\<lparr>content := Some (concat (map
              (\<lambda>block. case block of
                  TextBlock t \<Rightarrow>
                    (case splitThinkingTaggedText t of
                       None \<Rightarrow> [block]
                     | Some parts \<Rightarrow>
                         concat (map (\<lambda>part. case part of
                             ThinkingBlock th \<Rightarrow> [ThinkingBlock th]
                           | TextBlock tx \<Rightarrow>
                               (let cleaned = trimStart tx
                                in if cleaned = [] then [] else [TextBlock cleaned])
                           | OtherBlock \<Rightarrow> []) parts))
                | _ \<Rightarrow> [block]) cs))\<rparr>)"

section \<open>The streaming reply reconciler (subscribeEmbeddedPiSession)\<close>

subsection \<open>Parameters, events and state\<close>

datatype ReasoningLevel = reasoning_off | reasoning_on | reasoning_stream

datatype BlockReplyBreak = break_text_end | break_message_end

text \<open>
  \<open>EmbeddedBlockChunker\<close> (pi-embedded-block-chunker.ts) is used by the reconciler only
  through \<open>append\<close>, \<open>hasBuffered\<close>, \<open>drain\<close> and \<open>reset\<close>.  The model takes these
  four operations as parameters over a chunker state of any type \<open>'c\<close>.  \<open>drain\<close>
  hands chunks to its \<open>emit\<close> callback; the callback returns nothing, so the chunks of
  one \<open>drain\<close> are a list, emitted in order.
\<close>

record 'c EmbeddedBlockChunker =
  chunker_append :: "string \<Rightarrow> 'c \<Rightarrow> 'c"
  chunker_hasBuffered :: "'c \<Rightarrow> bool"
  chunker_drain :: "bool \<Rightarrow> 'c \<Rightarrow> string list \<times> 'c"
  chunker_reset :: "'c \<Rightarrow> 'c"

text \<open>
  The parameters of \<open>subscribeEmbeddedPiSession\<close>.  A callback is modelled by whether
  it is given; its calls are recorded in \<open>emitted\<close> below.  \<open>shouldEmitToolResult\<close> is
  the answer of the callback of that name, or \<open>verboseLevel === "on"\<close> without one.
  \<open>splitMediaFromOutput\<close> (media/parse.ts) and \<open>isMessagingToolDuplicate\<close>
  (pi-embedded-helpers.ts) are functions of the repository used here as parameters.
\<close>

record 'c params =
  reasoningMode :: ReasoningLevel
  shouldEmitToolResult :: bool
  onToolResult :: bool
  onReasoningStream :: bool
  onBlockReply :: bool
  blockReplyBreak :: BlockReplyBreak
  blockReplyChunking :: "'c EmbeddedBlockChunker"
  onPartialReply :: bool
  enforceFinalTag :: bool
  splitMediaFromOutput :: "string \<Rightarrow> string \<times> string list"
  isMessagingToolDuplicate :: "string \<Rightarrow> string list \<Rightarrow> bool"

definition includeReasoning :: "'c params \<Rightarrow> bool" where
  "includeReasoning p = (reasoningMode p = reasoning_on)"

definition streamReasoning :: "'c params \<Rightarrow> bool" where
  "streamReasoning p = (reasoningMode p = reasoning_stream \<and> onReasoningStream p)"

datatype js_val = JUndefined | JString string | JOther

record MessagingToolSend =
  tool :: string
  provider :: string
  accountId :: "string option"
  to :: "string option"

text \<open>
  A \<open>tool_execution_start\<close> event carries the fields of \<open>args\<close> the handler reads
  (\<open>JUndefined\<close> for a field that is missing, null or undefined, or when \<open>args\<close> is not
  an object), the value \<open>meta\<close> of \<open>inferToolMetaFromArgs(toolName, args)\<close> and the
  value \<open>sendTarget\<close> of \<open>extractMessagingToolSend(toolName, args)\<close>.
\<close>

record tool_start =
  toolName :: string
  toolCallId :: string
  arg_action :: js_val
  arg_content :: js_val
  arg_message :: js_val
  meta :: "string option"
  sendTarget :: "MessagingToolSend option"

datatype evtType = text_delta | text_start | text_end | other_evtType

text \<open>\<open>delta\<close> and \<open>content\<close> of an assistant message event are the empty string
  when the field is not a string, as in the source.\<close>

datatype event =
    message_start AgentMessage
  | tool_execution_start tool_start
  | tool_execution_update string string
  | tool_execution_end string string bool
  | message_update AgentMessage evtType string string
  | message_end AgentMessage
  | agent_start
  | auto_compaction_start
  | auto_compaction_end bool
  | agent_end
  | other_event

text \<open>
  What the reconciler hands to its callbacks, in order.  A reply carries the text
  before \<open>splitMediaFromOutput\<close>; the callback receives the text and media URLs that
  function makes of it.  Events of the tool, lifecycle and compaction streams and the
  raw stream log neither read nor write the state and are left out.
\<close>

datatype emission =
    BlockReply string
  | ReasoningReply string
  | ReasoningStream string
  | AssistantEvent string
  | PartialReply string
  | ToolSummary string "string option"
  | CompactionRetryResolved

record 'c subscription =
  assistantTexts :: "string list"
  toolMetas :: "(string \<times> string option) list"
  toolMetaById :: "string \<rightharpoonup> string option"
  toolSummaryById :: "string set"
  deltaBuffer :: string
  blockBuffer :: string
  blockChunker :: "'c option"
  blockThinkingActive :: bool
  lastStreamedAssistant :: "string option"
  lastStreamedReasoning :: "string option"
  lastBlockReplyText :: "string option"
  assistantTextBaseline :: nat
  compactionInFlight :: bool
  pendingCompactionRetry :: nat
  compactionRetryPromise :: bool
  lastReasoningSent :: "string option"
  messagingToolSentTexts :: "string list"
  messagingToolSentTargets :: "MessagingToolSend list"
  pendingMessagingTexts :: "string \<rightharpoonup> string"
  pendingMessagingTargets :: "string \<rightharpoonup> MessagingToolSend"
  emitted :: "emission list"

text \<open>The state right after \<open>subscribeEmbeddedPiSession\<close> has declared its variables;
  \<open>chunker\<close> is the new chunker when \<open>blockReplyChunking\<close> is given.\<close>

definition subscribe :: "'c option \<Rightarrow> 'c subscription" where
  "subscribe chunker =
     \<lparr>assistantTexts = [], toolMetas = [], toolMetaById = Map.empty, toolSummaryById = {},
      deltaBuffer = [], blockBuffer = [], blockChunker = chunker, blockThinkingActive = False,
      lastStreamedAssistant = None, lastStreamedReasoning = None, lastBlockReplyText = None,
      assistantTextBaseline = 0, compactionInFlight = False, pendingCompactionRetry = 0,
      compactionRetryPromise = False, lastReasoningSent = None, messagingToolSentTexts = [],
      messagingToolSentTargets = [], pendingMessagingTexts = Map.empty,
      pendingMessagingTargets = Map.empty, emitted = []\<rparr>"

definition MESSAGING_TOOLS :: "string set" where
  "MESSAGING_TOOLS = {''telegram'', ''whatsapp'', ''discord'', ''slack'', ''sessions_send''}"

subsection \<open>Compaction retry gate\<close>

text \<open>\<open>compactionRetryPromise\<close> says whether the shared promise exists; it exists
  exactly when \<open>compactionRetryResolve\<close> is set, and calling the latter is recorded as
  \<open>CompactionRetryResolved\<close>.\<close>

definition ensureCompactionPromise :: "'c subscription \<Rightarrow> 'c subscription" where
  "ensureCompactionPromise s =
     (if \<not> compactionRetryPromise s then s\<lparr>compactionRetryPromise := True\<rparr> else s)"

definition noteCompactionRetry :: "'c subscription \<Rightarrow> 'c subscription" where
  "noteCompactionRetry s =
     ensureCompactionPromise (s\<lparr>pendingCompactionRetry := pendingCompactionRetry s + 1\<rparr>)"

definition resolveCompactionRetry :: "'c subscription \<Rightarrow> 'c subscription" where
  "resolveCompactionRetry s =
     (if pendingCompactionRetry s \<le> 0 then s
      else
        let s1 = s\<lparr>pendingCompactionRetry := pendingCompactionRetry s - 1\<rparr>
        in if pendingCompactionRetry s1 = 0 \<and> \<not> compactionInFlight s1
           then s1\<lparr>emitted := emitted s1 @
                      (if compactionRetryPromise s1 then [CompactionRetryResolved] else []),
                    compactionRetryPromise := False\<rparr>
           else s1)"

definition maybeResolveCompactionWait :: "'c subscription \<Rightarrow> 'c subscription" where
  "maybeResolveCompactionWait s =
     (if pendingCompactionRetry s = 0 \<and> \<not> compactionInFlight s
      then s\<lparr>emitted := emitted s @
                 (if compactionRetryPromise s then [CompactionRetryResolved] else []),
               compactionRetryPromise := False\<rparr>
      else s)"

definition isCompacting :: "'c subscription \<Rightarrow> bool" where
  "isCompacting s = (compactionInFlight s \<or> pendingCompactionRetry s > 0)"

text \<open>
  \<open>waitForCompactionRetry\<close> returns the shared promise while a compaction or a retry
  is pending; otherwise it returns a promise that looks again in a microtask and then
  either follows the shared promise or resolves.  The microtask is the second function.
\<close>

datatype wait_result = WaitOnPromise | WaitOnMicrotask | WaitResolved

definition waitForCompactionRetry :: "'c subscription \<Rightarrow> wait_result \<times> 'c subscription" where
  "waitForCompactionRetry s =
     (if compactionInFlight s \<or> pendingCompactionRetry s > 0
      then (WaitOnPromise, ensureCompactionPromise s)
      else (WaitOnMicrotask, s))"

definition waitForCompactionRetry_microtask ::
  "'c subscription \<Rightarrow> wait_result \<times> 'c subscription" where
  "waitForCompactionRetry_microtask s =
     (if compactionInFlight s \<or> pendingCompactionRetry s > 0
      then (WaitOnPromise, ensureCompactionPromise s)
      else (WaitResolved, s))"

definition getMessagingToolSentTexts :: "'c subscription \<Rightarrow> string list" where
  "getMessagingToolSentTexts s = messagingToolSentTexts s"

definition didSendViaMessagingTool :: "'c subscription \<Rightarrow> bool" where
  "didSendViaMessagingTool s = (length (messagingToolSentTexts s) > 0)"

subsection \<open>Block replies\<close>

definition stripBlockThinkingSegments ::
  "string \<Rightarrow> 'c subscription \<Rightarrow> string \<times> 'c subscription" where
  "stripBlockThinkingSegments text s =
     (if text = [] then (text, s)
      else if \<not> blockThinkingActive s \<and> \<not> test THINKING_TAG_SCAN_RE text then (text, s)
      else
        case foldl (strip_step text) ([], 0, blockThinkingActive s)
               (matchAll THINKING_TAG_SCAN_RE text) of
          (result, lastIndex, inThinking) \<Rightarrow>
            ((if \<not> inThinking then result @ drop lastIndex text else result),
             s\<lparr>blockThinkingActive := inThinking\<rparr>))"

text \<open>For the proofs: the result and the new flag of \<open>stripBlockThinkingSegments\<close>
  as a function of the old flag and the text.\<close>

definition strip_block :: "bool \<Rightarrow> string \<Rightarrow> string \<times> bool" where
  "strip_block active text =
     (if text = [] then (text, active)
      else if \<not> active \<and> \<not> test THINKING_TAG_SCAN_RE text then (text, active)
      else
        case foldl (strip_step text) ([], 0, active) (matchAll THINKING_TAG_SCAN_RE text) of
          (result, lastIndex, inThinking) \<Rightarrow>
            ((if \<not> inThinking then result @ drop lastIndex text else result), inThinking))"

definition emitBlockChunk :: "'c params \<Rightarrow> string \<Rightarrow> 'c subscription \<Rightarrow> 'c subscription" where
  "emitBlockChunk p text s =
     (case stripBlockThinkingSegments text s of
        (strippedText, s1) \<Rightarrow>
          let chunk = trimEnd strippedText
          in if chunk = [] then s1
             else if lastBlockReplyText s1 = Some chunk then s1
             else if isMessagingToolDuplicate p chunk (messagingToolSentTexts s1) then s1
             else
               let s2 = s1\<lparr>lastBlockReplyText := Some chunk,
                          assistantTexts := assistantTexts s1 @ [chunk]\<rparr>
               in if \<not> onBlockReply p then s2
                  else
                    case splitMediaFromOutput p chunk of
                      (cleanedText, mediaUrls) \<Rightarrow>
                        if cleanedText = [] \<and> mediaUrls = [] then s2
                        else s2\<lparr>emitted := emitted s2 @ [BlockReply chunk]\<rparr>)"

text \<open>\<open>blockChunker?.hasBuffered()\<close>, \<open>blockChunker?.reset()\<close> and
  \<open>blockChunker?.drain({ force, emit: emitBlockChunk })\<close>.\<close>

definition hasBuffered :: "'c params \<Rightarrow> 'c subscription \<Rightarrow> bool" where
  "hasBuffered p s =
     (case blockChunker s of
        None \<Rightarrow> False
      | Some c \<Rightarrow> chunker_hasBuffered (blockReplyChunking p) c)"

definition resetChunker :: "'c params \<Rightarrow> 'c subscription \<Rightarrow> 'c subscription" where
  "resetChunker p s =
     s\<lparr>blockChunker := map_option (chunker_reset (blockReplyChunking p)) (blockChunker s)\<rparr>"

definition drainChunker :: "'c params \<Rightarrow> bool \<Rightarrow> 'c subscription \<Rightarrow> 'c subscription" where
  "drainChunker p force s =
     (case blockChunker s of
        None \<Rightarrow> s
      | Some c \<Rightarrow>
          (case chunker_drain (blockReplyChunking p) force c of
             (chunks, c') \<Rightarrow>
               foldl (\<lambda>s' chunk. emitBlockChunk p chunk s') (s\<lparr>blockChunker := Some c'\<rparr>) chunks))"

text \<open>The flush shared by \<open>text_end\<close> and \<open>agent_end\<close>.\<close>

definition flushBlockReplies :: "'c params \<Rightarrow> 'c subscription \<Rightarrow> 'c subscription" where
  "flushBlockReplies p s =
     (if hasBuffered p s then resetChunker p (drainChunker p True s)
      else if length (blockBuffer s) > 0 then (emitBlockChunk p (blockBuffer s) s)\<lparr>blockBuffer := []\<rparr>
      else s)"

definition emitReasoningStream :: "'c params \<Rightarrow> string \<Rightarrow> 'c subscription \<Rightarrow> 'c subscription" where
  "emitReasoningStream p text s =
     (if \<not> streamReasoning p \<or> \<not> onReasoningStream p then s
      else
        let formatted = formatReasoningDraft text
        in if formatted = [] then s
           else if lastStreamedReasoning s = Some formatted then s
           else s\<lparr>lastStreamedReasoning := Some formatted,
                  emitted := emitted s @ [ReasoningStream formatted]\<rparr>)"

definition resetForCompactionRetry :: "'c params \<Rightarrow> 'c subscription \<Rightarrow> 'c subscription" where
  "resetForCompactionRetry p s =
     (resetChunker p
        (s\<lparr>assistantTexts := [], toolMetas := [], toolMetaById := Map.empty,
           toolSummaryById := {}, messagingToolSentTexts := [], messagingToolSentTargets := [],
           pendingMessagingTexts := Map.empty, pendingMessagingTargets := Map.empty,
           deltaBuffer := [], blockBuffer := []\<rparr>))
       \<lparr>blockThinkingActive := False, lastStreamedAssistant := None,
        lastStreamedReasoning := None, lastBlockReplyText := None, assistantTextBaseline := 0\<rparr>"

subsection \<open>Event handlers\<close>

definition handle_message_start :: "'c params \<Rightarrow> AgentMessage \<Rightarrow> 'c subscription \<Rightarrow> 'c subscription" where
  "handle_message_start p msg s =
     (if role msg = ''assistant''
      then (resetChunker p (s\<lparr>deltaBuffer := [], blockBuffer := []\<rparr>))
             \<lparr>blockThinkingActive := False, lastStreamedAssistant := None,
              lastBlockReplyText := None, lastStreamedReasoning := None,
              lastReasoningSent := None,
              assistantTextBaseline := length (assistantTexts s)\<rparr>
      else s)"

text \<open>\<open>ToolSummary\<close> records the call of \<open>emitToolSummary\<close>, which reaches
  \<open>onToolResult\<close> unless the formatted summary is empty.\<close>

definition handle_tool_execution_start ::
  "'c params \<Rightarrow> tool_start \<Rightarrow> 'c subscription \<Rightarrow> 'c subscription" where
  "handle_tool_execution_start p e s =
     (let s1 = s\<lparr>toolMetaById := (toolMetaById s)(toolCallId e \<mapsto> meta e)\<rparr>;
          s2 = (if onToolResult p \<and> shouldEmitToolResult p \<and> toolCallId e \<notin> toolSummaryById s1
                then s1\<lparr>toolSummaryById := insert (toolCallId e) (toolSummaryById s1),
                        emitted := emitted s1 @ [ToolSummary (toolName e) (meta e)]\<rparr>
                else s1)
      in if toolName e \<in> MESSAGING_TOOLS
         then
           let action = (case arg_action e of JString a \<Rightarrow> a | _ \<Rightarrow> [])
           in if action = ''sendMessage'' \<or> action = ''threadReply''
                 \<or> toolName e = ''sessions_send''
              then
                let s3 = (case sendTarget e of
                            Some t \<Rightarrow>
                              s2\<lparr>pendingMessagingTargets :=
                                   (pendingMessagingTargets s2)(toolCallId e \<mapsto> t)\<rparr>
                          | None \<Rightarrow> s2);
                    text = (case arg_content e of JUndefined \<Rightarrow> arg_message e | v \<Rightarrow> v)
                in case text of
                     JString t \<Rightarrow>
                       if t \<noteq> []
                       then s3\<lparr>pendingMessagingTexts :=
                                (pendingMessagingTexts s3)(toolCallId e \<mapsto> t)\<rparr>
                       else s3
                   | _ \<Rightarrow> s3
              else s2
         else s2)"

definition handle_tool_execution_end ::
  "string \<Rightarrow> string \<Rightarrow> bool \<Rightarrow> 'c subscription \<Rightarrow> 'c subscription" where
  "handle_tool_execution_end name callId isError s =
     (let m = (case toolMetaById s callId of Some v \<Rightarrow> v | None \<Rightarrow> None);
          s1 = s\<lparr>toolMetas := toolMetas s @ [(name, m)],
                 toolMetaById := (toolMetaById s)(callId := None),
                 toolSummaryById := toolSummaryById s - {callId}\<rparr>;
          pendingText = pendingMessagingTexts s1 callId;
          pendingTarget = pendingMessagingTargets s1 callId;
          s2 = (case pendingText of
                  Some t \<Rightarrow>
                    if t \<noteq> []
                    then
                      let s' = s1\<lparr>pendingMessagingTexts := (pendingMessagingTexts s1)(callId := None)\<rparr>
                      in if \<not> isError
                         then s'\<lparr>messagingToolSentTexts := messagingToolSentTexts s' @ [t]\<rparr>
                         else s'
                    else s1
                | None \<Rightarrow> s1)
      in case pendingTarget of
           Some tg \<Rightarrow>
             let s' = s2\<lparr>pendingMessagingTargets := (pendingMessagingTargets s2)(callId := None)\<rparr>
             in if \<not> isError
                then s'\<lparr>messagingToolSentTargets := messagingToolSentTargets s' @ [tg]\<rparr>
                else s'
         | None \<Rightarrow> s2)"

text \<open>Chunk resolution (the block that computes \<open>chunk\<close> in the \<open>message_update\<close>
  handler) for an event of type \<open>text_delta\<close>, \<open>text_start\<close> or \<open>text_end\<close>.\<close>

definition resolveChunk :: "evtType \<Rightarrow> string \<Rightarrow> string \<Rightarrow> string \<Rightarrow> string" where
  "resolveChunk t delta content' buf =
     (if t = text_delta then delta
      else if t = text_start \<or> t = text_end
      then
        if delta \<noteq> [] then delta
        else if content' \<noteq> []
        then
          if startsWith content' buf then drop (length buf) content'
          else if startsWith buf content' then []
          else if \<not> includes_js buf content' then content'
          else []
        else []
      else [])"

text \<open>\<open>next\<close> of the \<open>message_update\<close> handler: the cleaned cumulative text.\<close>

definition cleanedNext :: "'c params \<Rightarrow> string \<Rightarrow> string" where
  "cleanedNext p buf =
     (let cleaned = (if enforceFinalTag p
                     then stripThinkingSegments (stripUnpairedThinkingTags buf)
                     else stripThinkingSegments buf)
      in if enforceFinalTag p
         then (case extractFinalText cleaned of Some f \<Rightarrow> trim f | None \<Rightarrow> trim cleaned)
         else trim cleaned)"

text \<open>The \<open>message_update\<close> handler in its four parts: the chunk is appended to the
  buffers; the reasoning draft and the partial reply are streamed; the chunker is
  drained; and a \<open>text_end\<close> flushes.\<close>

definition appendChunk :: "'c params \<Rightarrow> string \<Rightarrow> 'c subscription \<Rightarrow> 'c subscription" where
  "appendChunk p chunk s =
     (if chunk \<noteq> []
      then
        let s' = s\<lparr>deltaBuffer := deltaBuffer s @ chunk\<rparr>
        in case blockChunker s' of
             Some c \<Rightarrow> s'\<lparr>blockChunker := Some (chunker_append (blockReplyChunking p) chunk c)\<rparr>
           | None \<Rightarrow> s'\<lparr>blockBuffer := blockBuffer s' @ chunk\<rparr>
      else s)"

definition streamPartial :: "'c params \<Rightarrow> 'c subscription \<Rightarrow> 'c subscription" where
  "streamPartial p s =
     (let s2 = (if streamReasoning p
                then emitReasoningStream p (extractThinkingFromStream (deltaBuffer s)) s
                else s);
          next = cleanedNext p (deltaBuffer s2)
      in if next \<noteq> [] \<and> lastStreamedAssistant s2 \<noteq> Some next
         then s2\<lparr>lastStreamedAssistant := Some next,
                 emitted := emitted s2 @ [AssistantEvent next] @
                   (if onPartialReply p then [PartialReply next] else [])\<rparr>
         else s2)"

definition handle_message_update ::
  "'c params \<Rightarrow> AgentMessage \<Rightarrow> evtType \<Rightarrow> string \<Rightarrow> string \<Rightarrow> 'c subscription \<Rightarrow> 'c subscription" where
  "handle_message_update p msg t delta content' s =
     (if role msg \<noteq> ''assistant'' then s
      else if \<not> (t = text_delta \<or> t = text_start \<or> t = text_end) then s
      else
        let s1 = appendChunk p (resolveChunk t delta content' (deltaBuffer s)) s;
            s3 = streamPartial p s1;
            s4 = (if onBlockReply p \<and> blockChunker s3 \<noteq> None
                     \<and> blockReplyBreak p = break_text_end
                  then drainChunker p False s3
                  else s3)
        in if t = text_end \<and> blockReplyBreak p = break_text_end
           then flushBlockReplies p s4
           else s4)"

text \<open>The \<open>message_end\<close> handler.  \<open>finalText\<close> is \<open>baseText\<close>; \<open>recordFinalText\<close>
  is the fallback for models that do not stream; \<open>emitFinalBlockReply\<close> is the block
  reply of the final text; \<open>endOfMessageReset\<close> is the last five assignments.\<close>

definition finalText :: "'c params \<Rightarrow> string \<Rightarrow> string" where
  "finalText p rawText =
     (let cleaned = (if enforceFinalTag p
                     then stripThinkingSegments (stripUnpairedThinkingTags rawText)
                     else stripThinkingSegments rawText)
      in if enforceFinalTag p \<and> cleaned \<noteq> []
         then (case extractFinalText cleaned of Some f \<Rightarrow> trim f | None \<Rightarrow> cleaned)
         else cleaned)"

definition recordFinalText :: "'c params \<Rightarrow> string \<Rightarrow> 'c subscription \<Rightarrow> 'c subscription" where
  "recordFinalText p text s =
     (let addedDuringMessage = (length (assistantTexts s) > assistantTextBaseline s);
          chunkerHasBuffered = hasBuffered p s;
          s1 = (if \<not> addedDuringMessage \<and> \<not> chunkerHasBuffered \<and> text \<noteq> []
                then
                  if assistantTexts s = [] \<or> last (assistantTexts s) = []
                     \<or> last (assistantTexts s) \<noteq> text
                  then s\<lparr>assistantTexts := assistantTexts s @ [text]\<rparr>
                  else s
                else s)
      in s1\<lparr>assistantTextBaseline := length (assistantTexts s1)\<rparr>)"

definition emitReasoningReply :: "string \<Rightarrow> 'c subscription \<Rightarrow> 'c subscription" where
  "emitReasoningReply formattedReasoning s =
     s\<lparr>lastReasoningSent := Some formattedReasoning,
       emitted := emitted s @ [ReasoningReply formattedReasoning]\<rparr>"

definition emitFinalBlockReply :: "'c params \<Rightarrow> string \<Rightarrow> 'c subscription \<Rightarrow> 'c subscription" where
  "emitFinalBlockReply p text s =
     (if (blockReplyBreak p = break_message_end
          \<or> (case blockChunker s of
                Some c \<Rightarrow> chunker_hasBuffered (blockReplyChunking p) c
              | None \<Rightarrow> length (blockBuffer s) > 0))
         \<and> text \<noteq> [] \<and> onBlockReply p
      then
        if hasBuffered p s then resetChunker p (drainChunker p True s)
        else if lastBlockReplyText s \<noteq> Some text
        then
          if isMessagingToolDuplicate p text (messagingToolSentTexts s) then s
          else
            let s' = s\<lparr>lastBlockReplyText := Some text\<rparr>
            in case splitMediaFromOutput p text of
                 (cleanedText, mediaUrls) \<Rightarrow>
                   if cleanedText \<noteq> [] \<or> mediaUrls \<noteq> []
                   then s'\<lparr>emitted := emitted s' @ [BlockReply text]\<rparr>
                   else s'
        else s
      else s)"

definition endOfMessageReset :: "'c params \<Rightarrow> 'c subscription \<Rightarrow> 'c subscription" where
  "endOfMessageReset p s =
     (resetChunker p (s\<lparr>deltaBuffer := [], blockBuffer := []\<rparr>))
       \<lparr>blockThinkingActive := False, lastStreamedAssistant := None\<rparr>"

definition handle_message_end :: "'c params \<Rightarrow> AgentMessage \<Rightarrow> 'c subscription \<Rightarrow> 'c subscription" where
  "handle_message_end p msg s =
     (if role msg \<noteq> ''assistant'' then s
      else
        let assistantMessage = promoteThinkingTagsToBlocks msg;
            rawText = extractAssistantText assistantMessage;
            text = finalText p rawText;
            rawThinking = (if includeReasoning p \<or> streamReasoning p
                           then (let t = extractAssistantThinking assistantMessage
                                 in if t \<noteq> [] then t else extractThinkingFromText rawText)
                           else []);
            formattedReasoning =
              (if rawThinking \<noteq> [] then formatReasoningMarkdown rawThinking else []);
            addedDuringMessage = (length (assistantTexts s) > assistantTextBaseline s);
            s2 = recordFinalText p text s;
            shouldEmitReasoning =
              (includeReasoning p \<and> formattedReasoning \<noteq> [] \<and> onBlockReply p
               \<and> lastReasoningSent s2 \<noteq> Some formattedReasoning);
            shouldEmitReasoningBeforeAnswer =
              (shouldEmitReasoning \<and> blockReplyBreak p = break_message_end
               \<and> \<not> addedDuringMessage);
            s3 = (if shouldEmitReasoningBeforeAnswer \<and> formattedReasoning \<noteq> []
                  then emitReasoningReply formattedReasoning s2
                  else s2);
            s4 = emitFinalBlockReply p text s3;
            s5 = (if shouldEmitReasoning \<and> \<not> shouldEmitReasoningBeforeAnswer
                     \<and> formattedReasoning \<noteq> []
                  then emitReasoningReply formattedReasoning s4
                  else s4);
            s6 = (if streamReasoning p \<and> rawThinking \<noteq> []
                  then emitReasoningStream p rawThinking s5
                  else s5)
        in endOfMessageReset p s6)"

definition handle_auto_compaction_start :: "'c subscription \<Rightarrow> 'c subscription" where
  "handle_auto_compaction_start s = ensureCompactionPromise (s\<lparr>compactionInFlight := True\<rparr>)"

definition handle_auto_compaction_end :: "'c params \<Rightarrow> bool \<Rightarrow> 'c subscription \<Rightarrow> 'c subscription" where
  "handle_auto_compaction_end p willRetry s =
     (let s1 = s\<lparr>compactionInFlight := False\<rparr>
      in if willRetry then resetForCompactionRetry p (noteCompactionRetry s1)
         else maybeResolveCompactionWait s1)"

definition handle_agent_end :: "'c params \<Rightarrow> 'c subscription \<Rightarrow> 'c subscription" where
  "handle_agent_end p s =
     (let s1 = (if onBlockReply p then flushBlockReplies p s else s);
          s2 = s1\<lparr>blockThinkingActive := False\<rparr>
      in if pendingCompactionRetry s2 > 0 then resolveCompactionRetry s2
         else maybeResolveCompactionWait s2)"

fun step :: "'c params \<Rightarrow> event \<Rightarrow> 'c subscription \<Rightarrow> 'c subscription" where
  "step p (message_start msg) s = handle_message_start p msg s"
| "step p (tool_execution_start e) s = handle_tool_execution_start p e s"
| "step p (tool_execution_update name callId) s = s"
| "step p (tool_execution_end name callId isError) s = handle_tool_execution_end name callId isError s"
| "step p (message_update msg t delta content') s = handle_message_update p msg t delta content' s"
| "step p (message_end msg) s = handle_message_end p msg s"
| "step p agent_start s = s"
| "step p auto_compaction_start s = handle_auto_compaction_start s"
| "step p (auto_compaction_end willRetry) s = handle_auto_compaction_end p willRetry s"
| "step p agent_end s = handle_agent_end p s"
| "step p other_event s = s"

definition run :: "'c params \<Rightarrow> event list \<Rightarrow> 'c subscription \<Rightarrow> 'c subscription" where
  "run p evts s = foldl (\<lambda>s' e. step p e s') s evts"

subsection \<open>Reading the emissions\<close>

definition blockReplies :: "emission list \<Rightarrow> string list" where
  "blockReplies em = concat (map (\<lambda>e. case e of BlockReply t \<Rightarrow> [t] | _ \<Rightarrow> []) em)"

definition partialReplies :: "emission list \<Rightarrow> string list" where
  "partialReplies em = concat (map (\<lambda>e. case e of PartialReply t \<Rightarrow> [t] | _ \<Rightarrow> []) em)"

text \<open>Modelled from the spec: \<open>isMessagingToolDuplicate\<close> of pi-embedded-helpers.ts is
  not among the sources.  The spec has a candidate suppressed when it is "exactly
  matching a committed tool-sent text".\<close>

definition exactDuplicate :: "string \<Rightarrow> string list \<Rightarrow> bool" where
  "exactDuplicate text sentTexts = (text \<in> set sentTexts)"

text \<open>
  Configurations for the closed examples.  \<open>plain_params\<close> has block replies at
  \<open>text_end\<close> and partial replies, no block chunking and no reasoning output; media
  splitting leaves a text as it is, and duplicates are exact matches.  \<open>eager_chunker\<close>
  is a chunker whose buffer is a string and whose \<open>drain\<close> emits all of it at once.
\<close>

definition no_chunker :: "unit EmbeddedBlockChunker" where
  "no_chunker =
     \<lparr>chunker_append = (\<lambda>t c. c), chunker_hasBuffered = (\<lambda>c. False),
      chunker_drain = (\<lambda>force c. ([], c)), chunker_reset = (\<lambda>c. c)\<rparr>"

definition eager_chunker :: "string EmbeddedBlockChunker" where
  "eager_chunker =
     \<lparr>chunker_append = (\<lambda>t c. c @ t), chunker_hasBuffered = (\<lambda>c. c \<noteq> []),
      chunker_drain = (\<lambda>force c. (if c = [] then [] else [c], [])),
      chunker_reset = (\<lambda>c. [])\<rparr>"

definition params_with :: "'c EmbeddedBlockChunker \<Rightarrow> 'c params" where
  "params_with chunker =
     \<lparr>reasoningMode = reasoning_off, shouldEmitToolResult = False, onToolResult = False,
      onReasoningStream = False, onBlockReply = True, blockReplyBreak = break_text_end,
      blockReplyChunking = chunker, onPartialReply = True, enforceFinalTag = False,
      splitMediaFromOutput = (\<lambda>t. (t, [])), isMessagingToolDuplicate = exactDuplicate\<rparr>"

definition plain_params :: "unit params" where
  "plain_params = params_with no_chunker"

definition assistant_msg :: "string \<Rightarrow> AgentMessage" where
  "assistant_msg t = \<lparr>role = ''assistant'', content = Some [TextBlock t]\<rparr>"

definition delta_event :: "string \<Rightarrow> event" where
  "delta_event d = message_update (assistant_msg []) text_delta d []"

definition text_end_event :: "string \<Rightarrow> event" where
  "text_end_event c = message_update (assistant_msg []) text_end [] c"

subsection \<open>The reasoning-strip example of the spec\<close>

text \<open>\<open>think_split_ok k\<close> collects what is computed for the example text cut after
  \<open>k\<close> characters.\<close>

definition think_example :: string where
  "think_example = ''<think>hidden</think>visible''"

definition think_split_ok :: "nat \<Rightarrow> bool" where
  "think_split_ok k =
     (strip_block False (take k think_example) = ([], True)
      \<and> strip_block True (drop k think_example) = (''visible'', False)
      \<and> stripThinkingSegments (take k think_example) = []
      \<and> stripThinkingSegments (take k think_example @ drop k think_example) = ''visible''
      \<and> (let s' = run (params_with eager_chunker)
                    [message_start (assistant_msg []), delta_event (take k think_example),
                     delta_event (drop k think_example), text_end_event []]
                    (subscribe (Some []))
          in assistantTexts s' = [''visible''] \<and> blockReplies (emitted s') = [''visible'']
             \<and> partialReplies (emitted s') = [''visible''])
      \<and> (let s' = run plain_params
                    [message_start (assistant_msg []), delta_event (take k think_example),
                     delta_event (drop k think_example), text_end_event []]
                    (subscribe None)
          in assistantTexts s' = [''visible''] \<and> blockReplies (emitted s') = [''visible'']
             \<and> partialReplies (emitted s') = [''visible'']))"

text \<open>A state in the middle of a compaction, for the closed examples.\<close>

definition compacting_example :: "unit subscription" where
  "compacting_example =
     (subscribe None)\<lparr>deltaBuffer := ''partial ans'', blockBuffer := ''partial ans'',
        blockThinkingActive := True, assistantTexts := [''earlier block''],
        compactionInFlight := True, compactionRetryPromise := True\<rparr>"

text \<open>The messaging-tool example of the spec: a \<open>telegram\<close> tool call \<open>call1\<close> that
  sends \<open>Done!\<close>; \<open>done_pending\<close> is the state after its \<open>tool_execution_start\<close>.\<close>

definition send_done :: tool_start where
  "send_done =
     \<lparr>toolName = ''telegram'', toolCallId = ''call1'', arg_action = JString ''sendMessage'',
      arg_content = JString ''Done!'', arg_message = JUndefined, meta = None,
      sendTarget = None\<rparr>"

definition done_pending :: "unit subscription" where
  "done_pending = step plain_params (tool_execution_start send_done) (subscribe None)"

definition done_failed :: "unit subscription" where
  "done_failed = step plain_params (tool_execution_end ''telegram'' ''call1'' True) done_pending"

definition done_committed :: "unit subscription" where
  "done_committed = step plain_params (tool_execution_end ''telegram'' ''call1'' False) done_pending"

subsection \<open>Notions for the repetition theorems\<close>

definition streamedTexts :: "emission list \<Rightarrow> string list" where
  "streamedTexts em = concat (map (\<lambda>e. case e of AssistantEvent t \<Rightarrow> [t] | _ \<Rightarrow> []) em)"

definition opt_list :: "'a option \<Rightarrow> 'a list" where
  "opt_list x = (case x of None \<Rightarrow> [] | Some a \<Rightarrow> [a])"

definition last_opt :: "'a list \<Rightarrow> 'a option" where
  "last_opt xs = (if xs = [] then None else Some (last xs))"

text \<open>
  \<open>block_ext p s s' bs\<close>: from \<open>s\<close> to \<open>s'\<close> the chunks \<open>bs\<close> were accepted as block
  replies, no chunk equal to the one accepted before it, and \<open>lastBlockReplyText\<close>
  follows them.  \<open>stream_ext\<close> is the same for the cleaned cumulative texts that are
  streamed.  \<open>streaming_event\<close> holds of the events that occur while a message is
  streamed: message updates and tool events.
\<close>

definition block_ext :: "'c params \<Rightarrow> 'c subscription \<Rightarrow> 'c subscription \<Rightarrow> string list \<Rightarrow> bool" where
  "block_ext p s s' bs =
     (assistantTexts s' = assistantTexts s @ bs
      \<and> distinct_adj (opt_list (lastBlockReplyText s) @ bs)
      \<and> lastBlockReplyText s' = last_opt (opt_list (lastBlockReplyText s) @ bs)
      \<and> (if onBlockReply p \<and> (\<forall>c. c \<noteq> [] \<longrightarrow> splitMediaFromOutput p c \<noteq> ([], []))
         then blockReplies (emitted s') = blockReplies (emitted s) @ bs
         else True))"

definition stream_ext :: "'c params \<Rightarrow> 'c subscription \<Rightarrow> 'c subscription \<Rightarrow> string list \<Rightarrow> bool" where
  "stream_ext p s s' ps =
     (streamedTexts (emitted s') = streamedTexts (emitted s) @ ps
      \<and> partialReplies (emitted s') = partialReplies (emitted s) @ (if onPartialReply p then ps else [])
      \<and> distinct_adj (opt_list (lastStreamedAssistant s) @ ps)
      \<and> lastStreamedAssistant s' = last_opt (opt_list (lastStreamedAssistant s) @ ps))"

fun streaming_event :: "event \<Rightarrow> bool" where
  "streaming_event (message_update msg t delta content') = True"
| "streaming_event (tool_execution_start e) = True"
| "streaming_event (tool_execution_update name callId) = True"
| "streaming_event (tool_execution_end name callId isError) = True"
| "streaming_event agent_start = True"
| "streaming_event other_event = True"
| "streaming_event e = False"

text \<open>Two event sequences of one message: three blocks \<open>A\<close>, \<open>B\<close>, \<open>A\<close>, each closed
  by a \<open>text_end\<close>; and the deltas \<open>A\<close>, \<open><\<close>, \<open>think>\<close>.\<close>

definition blocks_ABA :: "event list" where
  "blocks_ABA =
     [delta_event ''A'', text_end_event [], delta_event ''B'', text_end_event [],
      delta_event ''A'', text_end_event []]"

definition deltas_open_marker :: "event list" where
  "deltas_open_marker = [delta_event ''A'', delta_event ''<'', delta_event ''think>'']"

subsection \<open>Waiting for the end of a run\<close>

text \<open>\<open>resolve\<close> of a promise: only the first call settles it.\<close>

definition resolve :: "nat \<Rightarrow> bool \<Rightarrow> registry \<Rightarrow> registry" where
  "resolve w v r =
     (case resolved r w of None \<Rightarrow> r\<lparr>resolved := (resolved r)(w \<mapsto> v)\<rparr> | Some _ \<Rightarrow> r)"

definition waiters_of :: "registry \<Rightarrow> string \<Rightarrow> nat list" where
  "waiters_of r sessionId =
     (case EMBEDDED_RUN_WAITERS r sessionId of Some ws \<Rightarrow> ws | None \<Rightarrow> [])"

text \<open>\<open>waiters.delete(waiter)\<close> followed by
  \<open>if (waiters.size === 0) EMBEDDED_RUN_WAITERS.delete(sessionId)\<close>; the set object
  is the one stored in the map, so removing from it changes the map's entry.\<close>

definition drop_waiter :: "string \<Rightarrow> nat \<Rightarrow> registry \<Rightarrow> registry" where
  "drop_waiter sessionId w r =
     (let waiters = removeAll w (waiters_of r sessionId)
      in if waiters = []
         then r\<lparr>EMBEDDED_RUN_WAITERS := (EMBEDDED_RUN_WAITERS r)(sessionId := None)\<rparr>
         else r\<lparr>EMBEDDED_RUN_WAITERS := (EMBEDDED_RUN_WAITERS r)(sessionId \<mapsto> waiters)\<rparr>)"

text \<open>
  The number \<open>timeoutMs\<close> as far as the timer reads it: an integer, \<open>NaN\<close> or an
  infinity.  \<open>Math.max(100, x)\<close> is \<open>NaN\<close> for \<open>NaN\<close>.  \<open>setTimeout\<close> of Node arms a
  timer with the delay it is given when that is a number from 1 to 2147483647, and
  with 1 millisecond otherwise.
\<close>

datatype js_number = JNum int | JNaN | JPosInfinity | JNegInfinity

definition math_max_100 :: "js_number \<Rightarrow> js_number" where
  "math_max_100 x =
     (case x of
        JNum t \<Rightarrow> JNum (max 100 t)
      | JNaN \<Rightarrow> JNaN
      | JPosInfinity \<Rightarrow> JPosInfinity
      | JNegInfinity \<Rightarrow> JNum 100)"

definition setTimeout_delay :: "js_number \<Rightarrow> int" where
  "setTimeout_delay after =
     (case after of
        JNum d \<Rightarrow> if 1 \<le> d \<and> d \<le> 2147483647 then d else 1
      | _ \<Rightarrow> 1)"

text \<open>
  \<open>waitForEmbeddedPiRunEnd\<close> returns a promise; the model returns the number of the
  promise (which is also the number of the waiter, when one is registered) and the new
  registry.  \<open>timeout = None\<close> is a call without the second argument.  \<open>timers\<close>
  holds, for each armed timer, the milliseconds after which it fires.
\<close>

definition waitForEmbeddedPiRunEnd :: "string \<Rightarrow> js_number option \<Rightarrow> registry \<Rightarrow> nat \<times> registry" where
  "waitForEmbeddedPiRunEnd sessionId timeout r =
     (let timeoutMs = (case timeout of None \<Rightarrow> JNum 15000 | Some t \<Rightarrow> t);
          w = nextWaiter r;
          r0 = r\<lparr>nextWaiter := Suc w\<rparr>
      in if sessionId = [] \<or> ACTIVE_EMBEDDED_RUNS r0 sessionId = None
         then (w, resolve w True r0)
         else
           let waiters = waiters_of r0 sessionId;
               r1 = r0\<lparr>timers := (timers r0)(w \<mapsto> setTimeout_delay (math_max_100 timeoutMs))\<rparr>;
               r2 = r1\<lparr>EMBEDDED_RUN_WAITERS :=
                        (EMBEDDED_RUN_WAITERS r1)
                          (sessionId \<mapsto> (if w \<in> set waiters then waiters else waiters @ [w]))\<rparr>
           in if ACTIVE_EMBEDDED_RUNS r2 sessionId = None
              then
                let r3 = drop_waiter sessionId w r2;
                    r4 = r3\<lparr>timers := (timers r3)(w := None)\<rparr>
                in (w, resolve w True r4)
              else (w, r2))"

text \<open>The callback of a waiter's timer.  A timer that was cleared never fires.\<close>

definition waiter_timeout :: "string \<Rightarrow> nat \<Rightarrow> registry \<Rightarrow> registry" where
  "waiter_timeout sessionId w r =
     (if timers r w = None then r
      else resolve w False (drop_waiter sessionId w (r\<lparr>timers := (timers r)(w := None)\<rparr>)))"

definition notifyEmbeddedRunEnded :: "string \<Rightarrow> registry \<Rightarrow> registry" where
  "notifyEmbeddedRunEnded sessionId r =
     (case EMBEDDED_RUN_WAITERS r sessionId of
        None \<Rightarrow> r
      | Some waiters \<Rightarrow>
          if waiters = [] then r
          else
            foldl (\<lambda>r' w. resolve w True (r'\<lparr>timers := (timers r')(w := None)\<rparr>))
              (r\<lparr>EMBEDDED_RUN_WAITERS := (EMBEDDED_RUN_WAITERS r)(sessionId := None)\<rparr>)
              waiters)"

text \<open>Registration (\<open>ACTIVE_EMBEDDED_RUNS.set\<close>) and the deregistration in the
  \<open>finally\<close> block of a run; handles are compared by their contents.\<close>

definition register_run :: "string \<Rightarrow> EmbeddedPiQueueHandle \<Rightarrow> registry \<Rightarrow> registry" where
  "register_run sessionId queueHandle r =
     r\<lparr>ACTIVE_EMBEDDED_RUNS := (ACTIVE_EMBEDDED_RUNS r)(sessionId \<mapsto> queueHandle)\<rparr>"

definition deregister_run :: "string \<Rightarrow> EmbeddedPiQueueHandle \<Rightarrow> registry \<Rightarrow> registry" where
  "deregister_run sessionId queueHandle r =
     (if ACTIVE_EMBEDDED_RUNS r sessionId = Some queueHandle
      then notifyEmbeddedRunEnded sessionId
             (r\<lparr>ACTIVE_EMBEDDED_RUNS := (ACTIVE_EMBEDDED_RUNS r)(sessionId := None)\<rparr>)
      else r)"

text \<open>Waiters are numbered in the order of their creation: a waiter in a set is
  below \<open>nextWaiter\<close> and its promise is pending, and no promise with a number not yet
  given out is settled.\<close>

definition registry_ok :: "registry \<Rightarrow> bool" where
  "registry_ok r =
     ((\<forall>sessionId. \<forall>w \<in> set (waiters_of r sessionId). w < nextWaiter r \<and> resolved r w = None)
      \<and> (\<forall>w. nextWaiter r \<le> w \<longrightarrow> resolved r w = None))"

definition idle_handle :: EmbeddedPiQueueHandle where
  "idle_handle = \<lparr>h_isStreaming = True, h_isCompacting = False, steered = [], abortCalls = 0\<rparr>"

text \<open>Registries for the closed examples: one run registered for \<open>s1\<close>, then one
  and two waiters for it; and a run registered for the empty session id.\<close>

definition one_run :: registry where
  "one_run = register_run ''s1'' idle_handle empty_registry"

definition one_waiter :: registry where
  "one_waiter = snd (waitForEmbeddedPiRunEnd ''s1'' None one_run)"

definition two_waiters :: registry where
  "two_waiters = snd (waitForEmbeddedPiRunEnd ''s1'' (Some (JNum 50)) one_waiter)"

definition empty_id_run :: registry where
  "empty_id_run = register_run [] idle_handle empty_registry"

subsection \<open>Auth profile rotation and failover (pi-embedded-runner.ts)\<close>

text \<open>\<open>runEmbeddedPiAgent\<close> runs attempts in a loop.  The loop keeps the index of the
  auth profile in use, the thinking level, the thinking levels tried, the resolved key and
  the id of the profile the key came from.  \<open>markAuthProfileFailure\<close> writes to the auth
  store; the model logs its calls in \<open>cooldowns\<close> as pairs of profile id and reason.\<close>

type_synonym ThinkLevel = string

record ApiKeyInfo =
  apiKey :: string
  keyProfileId :: "string option"

record rotation =
  profileIndex :: nat
  thinkLevel :: ThinkLevel
  attemptedThinking :: "ThinkLevel list"
  apiKeyInfo :: "ApiKeyInfo option"
  runtimeApiKey :: "string option"
  lastProfileId :: "string option"
  cooldowns :: "(string \<times> string) list"

text \<open>The fields of a \<open>FailoverError\<close> as the runner passes them to its constructor.\<close>

record FailoverError =
  err_message :: string
  err_reason :: string
  err_provider :: string
  err_model :: string
  err_profileId :: "string option"
  err_status :: "nat option"

text \<open>What leaves the loop by \<open>throw\<close>: the error of \<open>getApiKeyForModel\<close> for a
  candidate, the error thrown by the prompt (held by its description), or a
  \<open>FailoverError\<close>.\<close>

datatype run_error =
    CredentialError "string option"
  | PromptError string
  | Failover FailoverError

record AssistantMessage =
  errorMessage :: "string option"
  stopReason :: string

text \<open>The classifiers of \<open>pi-embedded-helpers.ts\<close> and \<open>failover-error.ts\<close> are taken as
  parameters.  \<open>formatAssistantErrorText\<close> returns the empty string where the source
  returns \<open>undefined\<close>: both are falsy at every use.\<close>

record classifiers =
  isContextOverflowError :: "string \<Rightarrow> bool"
  classifyFailoverReason :: "string \<Rightarrow> string option"
  isFailoverErrorMessage :: "string \<Rightarrow> bool"
  pickFallbackThinkingLevel :: "string option \<Rightarrow> ThinkLevel list \<Rightarrow> ThinkLevel option"
  isAuthAssistantError :: "AssistantMessage option \<Rightarrow> bool"
  isRateLimitAssistantError :: "AssistantMessage option \<Rightarrow> bool"
  isFailoverAssistantError :: "AssistantMessage option \<Rightarrow> bool"
  formatAssistantErrorText :: "AssistantMessage \<Rightarrow> string"
  resolveFailoverStatus :: "string \<Rightarrow> nat option"
  isTimeoutErrorMessage :: "string \<Rightarrow> bool"

text \<open>The constants of one run.  \<open>getApiKeyForModel\<close> returns \<open>None\<close> where the source
  throws.  \<open>profileCandidates\<close> is the profile order, or the single candidate
  \<open>undefined\<close> when the order is empty.\<close>

record run_env =
  run_provider :: string
  modelId :: string
  explicitProfileId :: "string option"
  profileCandidates :: "string option list"
  initialThinkLevel :: ThinkLevel
  fallbackConfigured :: bool
  getApiKeyForModel :: "string option \<Rightarrow> ApiKeyInfo option"
  helpers :: classifiers

text \<open>What one attempt leaves behind: the value thrown by the prompt, if any, the two
  flags set by the abort paths, and the last assistant message of the snapshot.  The
  loop tests the thrown value for truthiness: a truthy value is held by its description
  (\<open>describeUnknownError\<close>); a thrown \<open>undefined\<close>, \<open>null\<close>, empty string, 0 or \<open>false\<close>
  is \<open>ThrownFalsy\<close>, which the loop takes for no error.\<close>

datatype thrown = Thrown string | ThrownFalsy

record attempt =
  promptError :: "thrown option"
  aborted :: bool
  timedOut :: bool
  lastAssistant :: "AssistantMessage option"

definition truthy :: "string option \<Rightarrow> bool" where
  "truthy v = (case v of Some t \<Rightarrow> t \<noteq> [] | None \<Rightarrow> False)"

definition applyApiKeyInfo :: "run_env \<Rightarrow> string option \<Rightarrow> rotation \<Rightarrow> run_error + rotation" where
  "applyApiKeyInfo env candidate st =
     (case getApiKeyForModel env candidate of
        None \<Rightarrow> Inl (CredentialError candidate)
      | Some info \<Rightarrow>
          Inr (st\<lparr>apiKeyInfo := Some info, runtimeApiKey := Some (apiKey info),
                  lastProfileId := keyProfileId info\<rparr>))"

text \<open>The \<open>while\<close> loop of \<open>advanceAuthProfile\<close>, from \<open>nextIndex\<close> on.\<close>

function advance_from :: "run_env \<Rightarrow> nat \<Rightarrow> rotation \<Rightarrow> run_error + bool \<times> rotation" where
  "advance_from env nextIndex st =
     (if nextIndex < length (profileCandidates env) then
        (let candidate = profileCandidates env ! nextIndex in
         case applyApiKeyInfo env candidate st of
           Inr st' \<Rightarrow>
             Inr (True, st'\<lparr>profileIndex := nextIndex, thinkLevel := initialThinkLevel env,
                            attemptedThinking := []\<rparr>)
         | Inl err \<Rightarrow>
             if truthy candidate \<and> candidate = explicitProfileId env then Inl err
             else advance_from env (nextIndex + 1) st)
      else Inr (False, st))"
  by pat_completeness auto
termination
  by (relation "measure (\<lambda>(env, i, st). length (profileCandidates env) - i)") auto

definition advanceAuthProfile :: "run_env \<Rightarrow> rotation \<Rightarrow> run_error + bool \<times> rotation" where
  "advanceAuthProfile env st = advance_from env (profileIndex st + 1) st"

definition markAuthProfileFailure :: "string \<Rightarrow> rotation \<Rightarrow> rotation" where
  "markAuthProfileFailure why st =
     (case lastProfileId st of
        Some p \<Rightarrow> st\<lparr>cooldowns := cooldowns st @ [(p, why)]\<rparr>
      | None \<Rightarrow> st)"

text \<open>How an iteration of the loop ends: \<open>continue\<close> with the next attempt, a \<open>throw\<close>,
  the early return of the context-overflow payload, or falling through to the code that
  builds the payloads and returns the result of the run.  \<open>Finish\<close> carries the error
  text that this code puts first among the payloads, flagged \<open>isError\<close>.\<close>

datatype outcome =
    Continue rotation
  | Throw run_error
  | ContextOverflow
  | Finish "string option" rotation

definition failoverMessage :: "run_env \<Rightarrow> attempt \<Rightarrow> string" where
  "failoverMessage env att =
     (let h = helpers env;
          m1 = (case lastAssistant att of
                  Some a \<Rightarrow> (case errorMessage a of Some m \<Rightarrow> trim m | None \<Rightarrow> [])
                | None \<Rightarrow> []);
          m2 = (case lastAssistant att of
                  Some a \<Rightarrow> formatAssistantErrorText h a
                | None \<Rightarrow> [])
      in if m1 \<noteq> [] then m1
         else if m2 \<noteq> [] then m2
         else if timedOut att then ''LLM request timed out.''
         else if isRateLimitAssistantError h (lastAssistant att) then ''LLM request rate limited.''
         else if isAuthAssistantError h (lastAssistant att) then ''LLM request unauthorized.''
         else ''LLM request failed.'')"

definition assistantFailoverReason :: "run_env \<Rightarrow> attempt \<Rightarrow> string option" where
  "assistantFailoverReason env att =
     classifyFailoverReason (helpers env)
       (case lastAssistant att of
          Some a \<Rightarrow> (case errorMessage a of Some m \<Rightarrow> m | None \<Rightarrow> [])
        | None \<Rightarrow> [])"

definition or_unknown :: "string option \<Rightarrow> string" where
  "or_unknown r = (case r of Some v \<Rightarrow> v | None \<Rightarrow> ''unknown'')"

definition shouldRotate :: "run_env \<Rightarrow> attempt \<Rightarrow> bool" where
  "shouldRotate env att =
     ((\<not> aborted att \<and> isFailoverAssistantError (helpers env) (lastAssistant att)) \<or> timedOut att)"

definition errorPayload :: "run_env \<Rightarrow> attempt \<Rightarrow> string option" where
  "errorPayload env att =
     (case lastAssistant att of
        Some a \<Rightarrow>
          (let t = formatAssistantErrorText (helpers env) a in if t \<noteq> [] then Some t else None)
      | None \<Rightarrow> None)"

text \<open>The branch taken when the prompt threw and the run was not aborted.\<close>

definition after_prompt_error :: "run_env \<Rightarrow> string \<Rightarrow> rotation \<Rightarrow> outcome" where
  "after_prompt_error env errorText st =
     (let h = helpers env in
      if isContextOverflowError h errorText then ContextOverflow
      else
        let promptFailoverReason = classifyFailoverReason h errorText;
            st1 = (if truthy promptFailoverReason \<and> promptFailoverReason \<noteq> Some ''timeout''
                      \<and> truthy (lastProfileId st)
                   then markAuthProfileFailure (the promptFailoverReason) st else st);
            rotated = (if isFailoverErrorMessage h errorText \<and> promptFailoverReason \<noteq> Some ''timeout''
                       then advanceAuthProfile env st1 else Inr (False, st1))
        in case rotated of
             Inl err \<Rightarrow> Throw err
           | Inr (True, st2) \<Rightarrow> Continue st2
           | Inr (False, st2) \<Rightarrow>
               (let fallbackThinking =
                      pickFallbackThinkingLevel h (Some errorText) (attemptedThinking st2)
                in if truthy fallbackThinking then Continue (st2\<lparr>thinkLevel := the fallbackThinking\<rparr>)
                   else Throw (PromptError errorText)))"

text \<open>The branch taken otherwise: the attempt ended with a snapshot of the messages.\<close>

definition after_completed_attempt :: "run_env \<Rightarrow> attempt \<Rightarrow> rotation \<Rightarrow> outcome" where
  "after_completed_attempt env att st =
     (let h = helpers env;
          fallbackThinking =
            pickFallbackThinkingLevel h
              (case lastAssistant att of Some a \<Rightarrow> errorMessage a | None \<Rightarrow> None)
              (attemptedThinking st)
      in if truthy fallbackThinking \<and> \<not> aborted att then Continue (st\<lparr>thinkLevel := the fallbackThinking\<rparr>)
         else if shouldRotate env att then
           (let why = (if timedOut att \<or> assistantFailoverReason env att = Some ''timeout''
                       then ''timeout'' else or_unknown (assistantFailoverReason env att));
                st1 = (if truthy (lastProfileId st) then markAuthProfileFailure why st else st)
            in case advanceAuthProfile env st1 of
                 Inl err \<Rightarrow> Throw err
               | Inr (True, st2) \<Rightarrow> Continue st2
               | Inr (False, st2) \<Rightarrow>
                   if fallbackConfigured env then
                     (let message = failoverMessage env att;
                          status = (case resolveFailoverStatus h (or_unknown (assistantFailoverReason env att)) of
                                      Some c \<Rightarrow> Some c
                                    | None \<Rightarrow> if isTimeoutErrorMessage h message then Some 408 else None)
                      in Throw (Failover \<lparr>err_message = message,
                                           err_reason = or_unknown (assistantFailoverReason env att),
                                           err_provider = run_provider env,
                                           err_model = modelId env,
                                           err_profileId = lastProfileId st2,
                                           err_status = status\<rparr>))
                   else Finish (errorPayload env att) st2)
         else Finish (errorPayload env att) st)"

definition after_attempt :: "run_env \<Rightarrow> attempt \<Rightarrow> rotation \<Rightarrow> outcome" where
  "after_attempt env att st =
     (case promptError att of
        Some (Thrown errorText) \<Rightarrow>
          if \<not> aborted att then after_prompt_error env errorText st
          else after_completed_attempt env att st
      | Some ThrownFalsy \<Rightarrow> after_completed_attempt env att st
      | None \<Rightarrow> after_completed_attempt env att st)"

text \<open>A run with one auth profile \<open>p1\<close> whose key resolves, with model fallbacks
  configured.  The classifiers know one failing text, \<open>rate limit\<close>.\<close>

definition rate_limit_classifiers :: classifiers where
  "rate_limit_classifiers =
     \<lparr>isContextOverflowError = (\<lambda>t. False),
      classifyFailoverReason = (\<lambda>t. if t = ''rate limit'' then Some ''rate_limit'' else None),
      isFailoverErrorMessage = (\<lambda>t. t = ''rate limit''),
      pickFallbackThinkingLevel = (\<lambda>m tried. None),
      isAuthAssistantError = (\<lambda>a. False),
      isRateLimitAssistantError =
        (\<lambda>a. case a of Some m \<Rightarrow> errorMessage m = Some ''rate limit'' | None \<Rightarrow> False),
      isFailoverAssistantError =
        (\<lambda>a. case a of Some m \<Rightarrow> errorMessage m = Some ''rate limit'' | None \<Rightarrow> False),
      formatAssistantErrorText = (\<lambda>a. case errorMessage a of Some m \<Rightarrow> m | None \<Rightarrow> []),
      resolveFailoverStatus = (\<lambda>r. if r = ''rate_limit'' then Some 429 else None),
      isTimeoutErrorMessage = (\<lambda>t. False)\<rparr>"

definition one_profile_env :: "bool \<Rightarrow> run_env" where
  "one_profile_env fb =
     \<lparr>run_provider = ''anthropic'', modelId = ''m1'', explicitProfileId = None,
      profileCandidates = [Some ''p1''], initialThinkLevel = ''off'',
      fallbackConfigured = fb,
      getApiKeyForModel = (\<lambda>c. if c = Some ''p1'' then Some \<lparr>apiKey = ''k1'', keyProfileId = Some ''p1''\<rparr> else None),
      helpers = rate_limit_classifiers\<rparr>"

definition first_profile :: rotation where
  "first_profile =
     \<lparr>profileIndex = 0, thinkLevel = ''off'', attemptedThinking = [],
      apiKeyInfo = Some \<lparr>apiKey = ''k1'', keyProfileId = Some ''p1''\<rparr>,
      runtimeApiKey = Some ''k1'', lastProfileId = Some ''p1'', cooldowns = []\<rparr>"

definition prompt_threw :: attempt where
  "prompt_threw =
     \<lparr>promptError = Some (Thrown ''rate limit''), aborted = False, timedOut = False,
      lastAssistant = None\<rparr>"

definition assistant_failed :: attempt where
  "assistant_failed =
     \<lparr>promptError = None, aborted = False, timedOut = False,
      lastAssistant = Some \<lparr>errorMessage = Some ''rate limit'', stopReason = ''error''\<rparr>\<rparr>"

subsection \<open>Queue modes and the interrupt path (auto-reply/reply.ts)\<close>

definition resolveSessionLane :: "string \<Rightarrow> string" where
  "resolveSessionLane key =
     (let cleaned = (if trim key \<noteq> [] then trim key else ''main'')
      in if startsWith cleaned ''session:'' then cleaned else ''session:'' @ cleaned)"

definition resolveEmbeddedSessionLane :: "string \<Rightarrow> string" where
  "resolveEmbeddedSessionLane key = resolveSessionLane key"

text \<open>Modelled from the spec: \<open>process/command-queue.ts\<close> is not among the sources.  The
  spec has each session key own a serial queue, whose tasks run one at a time in
  submission order, and has lane clearing cancel the tasks queued but not started.  A
  lane is its list of tasks not yet started and the number of tasks running.\<close>

record 't LaneState =
  lane_queue :: "'t list"
  lane_active :: nat

text \<open>Modelled from the spec: the size of a lane counts the tasks queued and the task
  running ("lane has 2 queued items + 1 active run"); a lane never used has size 0.\<close>

definition getQueueSize :: "string \<Rightarrow> (string \<rightharpoonup> 't LaneState) \<Rightarrow> nat" where
  "getQueueSize lane ls =
     (case ls lane of None \<Rightarrow> 0 | Some s \<Rightarrow> length (lane_queue s) + lane_active s)"

text \<open>Modelled from the spec: clearing a lane drops the tasks queued but not started,
  leaves the running task to its run, and returns the number of tasks dropped.\<close>

definition clearCommandLane :: "string \<Rightarrow> (string \<rightharpoonup> 't LaneState) \<Rightarrow> nat \<times> (string \<rightharpoonup> 't LaneState)" where
  "clearCommandLane lane ls =
     (case ls lane of
        None \<Rightarrow> (0, ls)
      | Some s \<Rightarrow> (length (lane_queue s), ls(lane \<mapsto> s\<lparr>lane_queue := []\<rparr>)))"

datatype QueueMode = queue_steer | queue_followup | queue_collect | queue_steer_backlog | queue_interrupt

text \<open>The process state \<open>getReplyFromConfig\<close> reads and writes on this path: the command
  lanes and the registry of embedded runs.\<close>

record 't gateway =
  lanes :: "string \<rightharpoonup> 't LaneState"
  runs :: registry

text \<open>The arguments of the call to \<open>runReplyAgent\<close> that depend on the queue mode and
  on the registry, with the two bodies of the inbound message.\<close>

record ReplyAgentCall =
  arg_commandBody :: string
  arg_prompt :: string
  arg_queueKey :: string
  arg_shouldSteer :: bool
  arg_shouldFollowup :: bool
  arg_isActive :: bool
  arg_isStreaming :: bool

definition session_or_id :: "string option \<Rightarrow> string \<Rightarrow> string" where
  "session_or_id sessionKey sessionIdFinal = (case sessionKey of Some k \<Rightarrow> k | None \<Rightarrow> sessionIdFinal)"

text \<open>The tail of \<open>getReplyFromConfig\<close>, from the lane key to the call of
  \<open>runReplyAgent\<close>.  It returns the arguments of the call and the process state at the
  call.\<close>

definition dispatchReply ::
  "QueueMode \<Rightarrow> string option \<Rightarrow> string \<Rightarrow> string \<Rightarrow> string \<Rightarrow> 't gateway \<Rightarrow> ReplyAgentCall \<times> 't gateway" where
  "dispatchReply mode sessionKey sessionIdFinal prefixedCommandBody queuedBody w =
     (let sessionLaneKey = resolveEmbeddedSessionLane (session_or_id sessionKey sessionIdFinal);
          laneSize = getQueueSize sessionLaneKey (lanes w);
          w1 = (if mode = queue_interrupt \<and> laneSize > 0 then
                  (let (cleared, ls) = clearCommandLane sessionLaneKey (lanes w);
                       (aborted, r) = abortEmbeddedPiRun sessionIdFinal (runs w)
                   in w\<lparr>lanes := ls, runs := r\<rparr>)
                else w);
          queueKey = session_or_id sessionKey sessionIdFinal;
          isActive = isEmbeddedPiRunActive sessionIdFinal (runs w1);
          isStreaming = isEmbeddedPiRunStreaming sessionIdFinal (runs w1);
          shouldSteer = (mode = queue_steer \<or> mode = queue_steer_backlog);
          shouldFollowup = (mode = queue_followup \<or> mode = queue_collect \<or> mode = queue_steer_backlog)
      in (\<lparr>arg_commandBody = prefixedCommandBody, arg_prompt = queuedBody,
           arg_queueKey = queueKey, arg_shouldSteer = shouldSteer,
           arg_shouldFollowup = shouldFollowup, arg_isActive = isActive,
           arg_isStreaming = isStreaming\<rparr>, w1))"

text \<open>The state of the scenario: the lane of session \<open>s1\<close> has two tasks queued and
  one running, the run registered for \<open>s1\<close>.\<close>

definition busy_gateway :: "string gateway" where
  "busy_gateway =
     \<lparr>lanes = [''session:s1'' \<mapsto> \<lparr>lane_queue = [''t1'', ''t2''], lane_active = 1\<rparr>],
      runs = one_run\<rparr>"

text \<open>A state in which no lane holds work while a run is registered for \<open>s1\<close>.\<close>

definition idle_lanes_gateway :: "string gateway" where
  "idle_lanes_gateway = \<lparr>lanes = Map.empty, runs = one_run\<rparr>"

subsection \<open>Events that clear the buffers of a message\<close>

text \<open>The delta buffer, the block buffer and \<open>lastStreamedAssistant\<close> are cleared by
  the \<open>message_start\<close> and the \<open>message_end\<close> of an assistant message and by the end of
  a compaction that will be retried; \<open>lastBlockReplyText\<close> is cleared by the first and
  the last of these.  No other event clears them.\<close>

fun clears_buffers :: "event \<Rightarrow> bool" where
  "clears_buffers (message_start msg) = (role msg = ''assistant'')"
| "clears_buffers (message_end msg) = (role msg = ''assistant'')"
| "clears_buffers (auto_compaction_end willRetry) = willRetry"
| "clears_buffers e = False"

fun clears_last_block :: "event \<Rightarrow> bool" where
  "clears_last_block (message_start msg) = (role msg = ''assistant'')"
| "clears_last_block (auto_compaction_end willRetry) = willRetry"
| "clears_last_block e = False"

text \<open>The state after an assistant message has begun and a \<open>text_end\<close> has delivered
  the content \<open>Hello\<close>.\<close>

definition delivered_hello :: "unit subscription" where
  "delivered_hello =
     run plain_params [message_start (assistant_msg []), text_end_event ''Hello''] (subscribe None)"

subsection \<open>Messages whose content is replayed after message_end\<close>

text \<open>Three messages followed closely by their \<open>message_end\<close>: \<open>Hello world\<close> flushed
  as two blocks by two \<open>text_end\<close> events; the content \<open>c\<close> streamed as one delta and
  closed by one \<open>text_end\<close>; and \<open>Hello world\<close> streamed as two deltas and closed by one
  \<open>text_end\<close>.  \<open>message_end_params\<close> flushes block replies at \<open>message_end\<close>.\<close>

definition two_block_message :: "event list" where
  "two_block_message =
     [message_start (assistant_msg []), delta_event ''Hello'', text_end_event ''Hello'',
      delta_event '' world'', text_end_event ''Hello world'',
      message_end (assistant_msg ''Hello world'')]"

definition one_delta_message :: "string \<Rightarrow> event list" where
  "one_delta_message c =
     [message_start (assistant_msg []), delta_event c, text_end_event c,
      message_end (assistant_msg c)]"

definition two_delta_message :: "event list" where
  "two_delta_message =
     [message_start (assistant_msg []), delta_event ''Hello'', delta_event '' world'',
      text_end_event ''Hello world'', message_end (assistant_msg ''Hello world'')]"

definition message_end_params :: "unit params" where
  "message_end_params = plain_params\<lparr>blockReplyBreak := break_message_end\<rparr>"

text \<open>\<open>reply_ext p s s' bs\<close>: from \<open>s\<close> to \<open>s'\<close> the texts \<open>bs\<close> were accepted as
  block replies, by \<open>emitBlockChunk\<close> or as the final text of \<open>message_end\<close>, no text
  equal to the one accepted before it, and \<open>lastBlockReplyText\<close> follows them.\<close>

definition reply_ext :: "'c params \<Rightarrow> 'c subscription \<Rightarrow> 'c subscription \<Rightarrow> string list \<Rightarrow> bool" where
  "reply_ext p s s' bs =
     (distinct_adj (opt_list (lastBlockReplyText s) @ bs)
      \<and> lastBlockReplyText s' = last_opt (opt_list (lastBlockReplyText s) @ bs)
      \<and> (if onBlockReply p \<and> (\<forall>c. c \<noteq> [] \<longrightarrow> splitMediaFromOutput p c \<noteq> ([], []))
         then blockReplies (emitted s') = blockReplies (emitted s) @ bs
         else True))"

text \<open>Two more event sequences: a message whose content \<open>Hi\<close> is replayed after its
  \<open>message_end\<close>, and a block \<open>A\<close> before and after a compaction retry.\<close>

definition replay_after_end :: "event list" where
  "replay_after_end =
     [message_start (assistant_msg []), delta_event ''Hi'', message_end (assistant_msg ''Hi''),
      text_end_event ''Hi'']"

definition block_around_retry :: "event list" where
  "block_around_retry =
     [message_start (assistant_msg []), delta_event ''A'', text_end_event [],
      auto_compaction_end True, delta_event ''A'', text_end_event []]"

text \<open>A message that streams \<open>Done!\<close> and closes it by \<open>text_end\<close> and \<open>message_end\<close>.\<close>

definition streamed_done :: "event list" where
  "streamed_done =
     [message_start (assistant_msg []), delta_event ''Done!'', text_end_event ''Done!'',
      message_end (assistant_msg ''Done!'')]"

text \<open>The run of the reconciler over the example text cut after \<open>k\<close> characters, with a
  chunker that hands each delta to \<open>emitBlockChunk\<close> on its own.\<close>

definition think_split_run :: "nat \<Rightarrow> string subscription" where
  "think_split_run k =
     run (params_with eager_chunker)
       [message_start (assistant_msg []), delta_event (take k think_example),
        delta_event (drop k think_example), text_end_event []]
       (subscribe (Some []))"

section \<open>Theorems\<close>

text \<open>
  C3.  \<open>queueEmbeddedPiMessage\<close> answers false exactly when no run is registered for
  the session id, or the registered run is not streaming, or it is compacting.  When
  it answers false the registry is untouched; when it answers true the text has been
  handed to the run's \<open>steer\<close> (appended to the texts steered so far) and nothing else
  has changed.
\<close>

theorem queueMessage_false_iff:
  "(fst (queueEmbeddedPiMessage sessionId text r) = False) =
     (ACTIVE_EMBEDDED_RUNS r sessionId = None
      \<or> (\<exists>h. ACTIVE_EMBEDDED_RUNS r sessionId = Some h \<and> (\<not> h_isStreaming h \<or> h_isCompacting h)))
   \<and> (if fst (queueEmbeddedPiMessage sessionId text r)
      then \<exists>h. ACTIVE_EMBEDDED_RUNS r sessionId = Some h
             \<and> snd (queueEmbeddedPiMessage sessionId text r) =
                 r\<lparr>ACTIVE_EMBEDDED_RUNS :=
                     (ACTIVE_EMBEDDED_RUNS r)(sessionId \<mapsto> h\<lparr>steered := steered h @ [text]\<rparr>)\<rparr>
      else snd (queueEmbeddedPiMessage sessionId text r) = r)"
  by (cases "ACTIVE_EMBEDDED_RUNS r sessionId") (auto simp: queueEmbeddedPiMessage_def)

theorem queueMessage_false_iff_witness:
  "fst (queueEmbeddedPiMessage ''s1'' ''hello''
          (empty_registry\<lparr>ACTIVE_EMBEDDED_RUNS :=
             [''s1'' \<mapsto> \<lparr>h_isStreaming = True, h_isCompacting = False, steered = [], abortCalls = 0\<rparr>]\<rparr>))
   \<and> snd (queueEmbeddedPiMessage ''s1'' ''hello''
          (empty_registry\<lparr>ACTIVE_EMBEDDED_RUNS :=
             [''s1'' \<mapsto> \<lparr>h_isStreaming = True, h_isCompacting = False, steered = [], abortCalls = 0\<rparr>]\<rparr>))
       = empty_registry\<lparr>ACTIVE_EMBEDDED_RUNS :=
             [''s1'' \<mapsto> \<lparr>h_isStreaming = True, h_isCompacting = False, steered = [''hello''], abortCalls = 0\<rparr>]\<rparr>
   \<and> fst (queueEmbeddedPiMessage ''s1'' ''hello''
          (empty_registry\<lparr>ACTIVE_EMBEDDED_RUNS :=
             [''s1'' \<mapsto> \<lparr>h_isStreaming = True, h_isCompacting = True, steered = [], abortCalls = 0\<rparr>]\<rparr>)) = False
   \<and> fst (queueEmbeddedPiMessage ''s2'' ''hello'' empty_registry) = False"
  using queueMessage_false_iff [of "''s1''" "''hello''"
      "empty_registry\<lparr>ACTIVE_EMBEDDED_RUNS :=
             [''s1'' \<mapsto> \<lparr>h_isStreaming = True, h_isCompacting = False, steered = [], abortCalls = 0\<rparr>]\<rparr>"]
    queueMessage_false_iff [of "''s1''" "''hello''"
      "empty_registry\<lparr>ACTIVE_EMBEDDED_RUNS :=
             [''s1'' \<mapsto> \<lparr>h_isStreaming = True, h_isCompacting = True, steered = [], abortCalls = 0\<rparr>]\<rparr>"]
    queueMessage_false_iff [of "''s2''" "''hello''" empty_registry]
  by (simp add: empty_registry_def queueEmbeddedPiMessage_def)

section \<open>Chunk resolution\<close>

lemma startsWith_iff: "startsWith s p = (\<exists>r. s = p @ r)"
  unfolding startsWith_def
  by (metis append_eq_conv_conj append_take_drop_id)

lemma includes_js_iff: "includes_js s p = (\<exists>a b. s = a @ p @ b)"
proof (induction s)
  case Nil
  then show ?case by auto
next
  case (Cons c cs)
  show ?case
  proof
    assume "includes_js (c # cs) p"
    then consider "startsWith (c # cs) p" | "includes_js cs p" by auto
    then show "\<exists>a b. c # cs = a @ p @ b"
    proof cases
      case 1
      then obtain r where "c # cs = p @ r" by (auto simp: startsWith_iff)
      then have "c # cs = [] @ p @ r" by simp
      then show ?thesis by blast
    next
      case 2
      then obtain a b where "cs = a @ p @ b" using Cons.IH by auto
      then have "c # cs = (c # a) @ p @ b" by simp
      then show ?thesis by blast
    qed
  next
    assume "\<exists>a b. c # cs = a @ p @ b"
    then obtain a b where ab: "c # cs = a @ p @ b" by blast
    show "includes_js (c # cs) p"
    proof (cases a)
      case Nil
      then have "startsWith (c # cs) p" using ab by (simp add: startsWith_iff)
      then show ?thesis by simp
    next
      case (Cons x xs)
      then have "cs = xs @ p @ b" using ab by simp
      then show ?thesis using Cons.IH by auto
    qed
  qed
qed

lemma stripBlock_eq:
  "stripBlockThinkingSegments text s =
     (fst (strip_block (blockThinkingActive s) text),
      s\<lparr>blockThinkingActive := snd (strip_block (blockThinkingActive s) text)\<rparr>)"
  by (simp add: stripBlockThinkingSegments_def strip_block_def split: prod.splits)

lemma blockReplies_simps [simp]:
  "blockReplies [] = []"
  "blockReplies (xs @ ys) = blockReplies xs @ blockReplies ys"
  "blockReplies (BlockReply t # xs) = t # blockReplies xs"
  "blockReplies (ReasoningReply t # xs) = blockReplies xs"
  "blockReplies (ReasoningStream t # xs) = blockReplies xs"
  "blockReplies (AssistantEvent t # xs) = blockReplies xs"
  "blockReplies (PartialReply t # xs) = blockReplies xs"
  "blockReplies (ToolSummary n m # xs) = blockReplies xs"
  "blockReplies (CompactionRetryResolved # xs) = blockReplies xs"
  by (simp_all add: blockReplies_def)

lemma partialReplies_simps [simp]:
  "partialReplies [] = []"
  "partialReplies (xs @ ys) = partialReplies xs @ partialReplies ys"
  "partialReplies (BlockReply t # xs) = partialReplies xs"
  "partialReplies (ReasoningReply t # xs) = partialReplies xs"
  "partialReplies (ReasoningStream t # xs) = partialReplies xs"
  "partialReplies (AssistantEvent t # xs) = partialReplies xs"
  "partialReplies (PartialReply t # xs) = t # partialReplies xs"
  "partialReplies (ToolSummary n m # xs) = partialReplies xs"
  "partialReplies (CompactionRetryResolved # xs) = partialReplies xs"
  by (simp_all add: partialReplies_def)

lemma emitBlockChunk_frame [simp]:
  "deltaBuffer (emitBlockChunk p t s) = deltaBuffer s"
  "blockBuffer (emitBlockChunk p t s) = blockBuffer s"
  "blockChunker (emitBlockChunk p t s) = blockChunker s"
  "messagingToolSentTexts (emitBlockChunk p t s) = messagingToolSentTexts s"
  "pendingMessagingTexts (emitBlockChunk p t s) = pendingMessagingTexts s"
  "compactionInFlight (emitBlockChunk p t s) = compactionInFlight s"
  "pendingCompactionRetry (emitBlockChunk p t s) = pendingCompactionRetry s"
  "compactionRetryPromise (emitBlockChunk p t s) = compactionRetryPromise s"
  "lastStreamedAssistant (emitBlockChunk p t s) = lastStreamedAssistant s"
  by (simp_all add: emitBlockChunk_def stripBlock_eq Let_def split: prod.splits)

lemma foldl_emit_frame [simp]:
  "deltaBuffer (foldl (\<lambda>s' chunk. emitBlockChunk p chunk s') s cs) = deltaBuffer s"
  "blockBuffer (foldl (\<lambda>s' chunk. emitBlockChunk p chunk s') s cs) = blockBuffer s"
  "blockChunker (foldl (\<lambda>s' chunk. emitBlockChunk p chunk s') s cs) = blockChunker s"
  "messagingToolSentTexts (foldl (\<lambda>s' chunk. emitBlockChunk p chunk s') s cs) = messagingToolSentTexts s"
  "pendingMessagingTexts (foldl (\<lambda>s' chunk. emitBlockChunk p chunk s') s cs) = pendingMessagingTexts s"
  "compactionInFlight (foldl (\<lambda>s' chunk. emitBlockChunk p chunk s') s cs) = compactionInFlight s"
  "pendingCompactionRetry (foldl (\<lambda>s' chunk. emitBlockChunk p chunk s') s cs) = pendingCompactionRetry s"
  "compactionRetryPromise (foldl (\<lambda>s' chunk. emitBlockChunk p chunk s') s cs) = compactionRetryPromise s"
  "lastStreamedAssistant (foldl (\<lambda>s' chunk. emitBlockChunk p chunk s') s cs) = lastStreamedAssistant s"
  by (induction cs arbitrary: s; simp)+

lemma drainChunker_frame [simp]:
  "deltaBuffer (drainChunker p f s) = deltaBuffer s"
  "blockBuffer (drainChunker p f s) = blockBuffer s"
  "messagingToolSentTexts (drainChunker p f s) = messagingToolSentTexts s"
  "pendingMessagingTexts (drainChunker p f s) = pendingMessagingTexts s"
  "compactionInFlight (drainChunker p f s) = compactionInFlight s"
  "pendingCompactionRetry (drainChunker p f s) = pendingCompactionRetry s"
  "compactionRetryPromise (drainChunker p f s) = compactionRetryPromise s"
  "lastStreamedAssistant (drainChunker p f s) = lastStreamedAssistant s"
  by (simp_all add: drainChunker_def split: option.splits prod.splits)

lemma resetChunker_frame [simp]:
  "deltaBuffer (resetChunker p s) = deltaBuffer s"
  "blockBuffer (resetChunker p s) = blockBuffer s"
  "messagingToolSentTexts (resetChunker p s) = messagingToolSentTexts s"
  "pendingMessagingTexts (resetChunker p s) = pendingMessagingTexts s"
  "compactionInFlight (resetChunker p s) = compactionInFlight s"
  "pendingCompactionRetry (resetChunker p s) = pendingCompactionRetry s"
  "compactionRetryPromise (resetChunker p s) = compactionRetryPromise s"
  "lastStreamedAssistant (resetChunker p s) = lastStreamedAssistant s"
  "assistantTexts (resetChunker p s) = assistantTexts s"
  "emitted (resetChunker p s) = emitted s"
  "lastBlockReplyText (resetChunker p s) = lastBlockReplyText s"
  "blockThinkingActive (resetChunker p s) = blockThinkingActive s"
  by (simp_all add: resetChunker_def)

lemma flushBlockReplies_frame [simp]:
  "deltaBuffer (flushBlockReplies p s) = deltaBuffer s"
  "messagingToolSentTexts (flushBlockReplies p s) = messagingToolSentTexts s"
  "pendingMessagingTexts (flushBlockReplies p s) = pendingMessagingTexts s"
  "compactionInFlight (flushBlockReplies p s) = compactionInFlight s"
  "pendingCompactionRetry (flushBlockReplies p s) = pendingCompactionRetry s"
  "compactionRetryPromise (flushBlockReplies p s) = compactionRetryPromise s"
  "lastStreamedAssistant (flushBlockReplies p s) = lastStreamedAssistant s"
  by (simp_all add: flushBlockReplies_def)

lemma emitReasoningStream_frame [simp]:
  "deltaBuffer (emitReasoningStream p t s) = deltaBuffer s"
  "blockBuffer (emitReasoningStream p t s) = blockBuffer s"
  "blockChunker (emitReasoningStream p t s) = blockChunker s"
  "messagingToolSentTexts (emitReasoningStream p t s) = messagingToolSentTexts s"
  "pendingMessagingTexts (emitReasoningStream p t s) = pendingMessagingTexts s"
  "compactionInFlight (emitReasoningStream p t s) = compactionInFlight s"
  "pendingCompactionRetry (emitReasoningStream p t s) = pendingCompactionRetry s"
  "compactionRetryPromise (emitReasoningStream p t s) = compactionRetryPromise s"
  "lastStreamedAssistant (emitReasoningStream p t s) = lastStreamedAssistant s"
  "assistantTexts (emitReasoningStream p t s) = assistantTexts s"
  "lastBlockReplyText (emitReasoningStream p t s) = lastBlockReplyText s"
  "blockThinkingActive (emitReasoningStream p t s) = blockThinkingActive s"
  "blockReplies (emitted (emitReasoningStream p t s)) = blockReplies (emitted s)"
  "partialReplies (emitted (emitReasoningStream p t s)) = partialReplies (emitted s)"
  by (simp_all add: emitReasoningStream_def Let_def)

lemma streamPartial_frame [simp]:
  "deltaBuffer (streamPartial p s) = deltaBuffer s"
  "blockBuffer (streamPartial p s) = blockBuffer s"
  "blockChunker (streamPartial p s) = blockChunker s"
  "messagingToolSentTexts (streamPartial p s) = messagingToolSentTexts s"
  "pendingMessagingTexts (streamPartial p s) = pendingMessagingTexts s"
  "compactionInFlight (streamPartial p s) = compactionInFlight s"
  "pendingCompactionRetry (streamPartial p s) = pendingCompactionRetry s"
  "compactionRetryPromise (streamPartial p s) = compactionRetryPromise s"
  "assistantTexts (streamPartial p s) = assistantTexts s"
  "lastBlockReplyText (streamPartial p s) = lastBlockReplyText s"
  "blockThinkingActive (streamPartial p s) = blockThinkingActive s"
  "blockReplies (emitted (streamPartial p s)) = blockReplies (emitted s)"
  by (simp_all add: streamPartial_def Let_def)

lemma appendChunk_frame [simp]:
  "deltaBuffer (appendChunk p c s) = deltaBuffer s @ c"
  "messagingToolSentTexts (appendChunk p c s) = messagingToolSentTexts s"
  "pendingMessagingTexts (appendChunk p c s) = pendingMessagingTexts s"
  "compactionInFlight (appendChunk p c s) = compactionInFlight s"
  "pendingCompactionRetry (appendChunk p c s) = pendingCompactionRetry s"
  "compactionRetryPromise (appendChunk p c s) = compactionRetryPromise s"
  "assistantTexts (appendChunk p c s) = assistantTexts s"
  "lastBlockReplyText (appendChunk p c s) = lastBlockReplyText s"
  "lastStreamedAssistant (appendChunk p c s) = lastStreamedAssistant s"
  "blockThinkingActive (appendChunk p c s) = blockThinkingActive s"
  "emitted (appendChunk p c s) = emitted s"
  by (simp_all add: appendChunk_def Let_def split: option.splits)

lemma message_update_deltaBuffer:
  "role msg = ''assistant'' \<Longrightarrow> t \<noteq> other_evtType \<Longrightarrow>
   deltaBuffer (handle_message_update p msg t delta c s) = deltaBuffer s @ resolveChunk t delta c (deltaBuffer s)"
  by (cases t) (simp_all add: handle_message_update_def Let_def)

lemma resolveChunk_char:
  assumes "t = text_start \<or> t = text_end"
  shows "resolveChunk t [] c buf =
           (if \<exists>suffix. c = buf @ suffix then drop (length buf) c
            else if \<exists>a b. buf = a @ c @ b then [] else c)"
proof (cases "c = []")
  case True
  have "buf = buf @ [] @ []" by simp
  then have "\<exists>a b. buf = a @ [] @ b" by blast
  with True assms show ?thesis by (auto simp: resolveChunk_def)
next
  case False
  have "startsWith buf c \<Longrightarrow> \<exists>a b. buf = a @ c @ b"
    by (metis append_Nil startsWith_iff)
  with False assms show ?thesis
    by (auto simp: resolveChunk_def startsWith_iff includes_js_iff)
qed

lemma contained_and_extended:
  assumes "c = buf @ suffix" "buf = a @ c @ b"
  shows "suffix = []"
proof -
  have "length buf = length a + length c + length b" using assms(2) by (metis length_append add.assoc)
  moreover have "length c = length buf + length suffix" using assms(1) by simp
  ultimately show ?thesis by simp
qed

lemma step_extends_deltaBuffer:
  assumes "\<not> clears_buffers e"
  shows "\<exists>x. deltaBuffer (step p e s) = deltaBuffer s @ x"
proof (cases e)
  case (message_start msg)
  with assms show ?thesis by (simp add: handle_message_start_def)
next
  case (tool_execution_start ts)
  then show ?thesis
    by (simp add: handle_tool_execution_start_def Let_def split: js_val.splits option.splits)
next
  case (tool_execution_end n i err)
  then show ?thesis
    by (simp add: handle_tool_execution_end_def Let_def split: option.splits)
next
  case (message_update msg t d c)
  show ?thesis
  proof (cases "role msg = ''assistant'' \<and> t \<noteq> other_evtType")
    case True
    then show ?thesis using message_update by (simp add: message_update_deltaBuffer)
  next
    case False
    then have "handle_message_update p msg t d c s = s"
      by (cases t) (auto simp: handle_message_update_def)
    then show ?thesis using message_update by simp
  qed
next
  case (message_end msg)
  with assms show ?thesis by (simp add: handle_message_end_def)
next
  case (auto_compaction_end w)
  with assms show ?thesis
    by (simp add: handle_auto_compaction_end_def maybeResolveCompactionWait_def Let_def)
next
  case auto_compaction_start
  then show ?thesis by (simp add: handle_auto_compaction_start_def ensureCompactionPromise_def)
next
  case agent_end
  then show ?thesis
    by (simp add: handle_agent_end_def resolveCompactionRetry_def maybeResolveCompactionWait_def
        Let_def)
qed simp_all

lemma run_extends_deltaBuffer:
  assumes "\<forall>e \<in> set evts. \<not> clears_buffers e"
  shows "\<exists>x. deltaBuffer (run p evts s) = deltaBuffer s @ x"
  using assms
proof (induction evts arbitrary: s)
  case Nil
  then show ?case by (simp add: run_def)
next
  case (Cons e evts)
  then have e: "\<not> clears_buffers e" and rest: "\<forall>e \<in> set evts. \<not> clears_buffers e"
    by simp_all
  obtain x where x: "deltaBuffer (step p e s) = deltaBuffer s @ x"
    using step_extends_deltaBuffer [OF e] by blast
  obtain y where y: "deltaBuffer (run p evts (step p e s)) = deltaBuffer (step p e s) @ y"
    using Cons.IH [OF rest] by blast
  have "run p (e # evts) s = run p evts (step p e s)" by (simp add: run_def)
  with x y show ?case by simp
qed

lemma deltas_deltaBuffer:
  "deltaBuffer (run p (map delta_event ds) s) = deltaBuffer s @ concat ds"
proof (induction ds arbitrary: s)
  case Nil
  then show ?case by (simp add: run_def)
next
  case (Cons d ds)
  have "deltaBuffer (step p (delta_event d) s) = deltaBuffer s @ d"
    by (simp add: delta_event_def assistant_msg_def message_update_deltaBuffer resolveChunk_def)
  moreover have "run p (map delta_event (d # ds)) s = run p (map delta_event ds) (step p (delta_event d) s)"
    by (simp add: run_def)
  ultimately show ?case using Cons.IH by simp
qed

lemma delivered_content_contained:
  assumes "t = text_start \<or> t = text_end" "role msg = ''assistant''"
  shows "\<exists>a b. deltaBuffer (step p (message_update msg t [] c) s) = a @ c @ b"
proof -
  have t: "t \<noteq> other_evtType" using assms(1) by auto
  have d: "deltaBuffer (step p (message_update msg t [] c) s)
             = deltaBuffer s @ resolveChunk t [] c (deltaBuffer s)"
    using assms(2) t by (simp add: message_update_deltaBuffer)
  consider (ext) suffix where "c = deltaBuffer s @ suffix"
    | (inside) "\<forall>suffix. c \<noteq> deltaBuffer s @ suffix" "\<exists>a b. deltaBuffer s = a @ c @ b"
    | (new) "\<forall>suffix. c \<noteq> deltaBuffer s @ suffix" "\<forall>a b. deltaBuffer s \<noteq> a @ c @ b"
    by blast
  then show ?thesis
  proof cases
    case ext
    then have "resolveChunk t [] c (deltaBuffer s) = suffix"
      using resolveChunk_char [OF assms(1), of c "deltaBuffer s"] by auto
    with d ext have "deltaBuffer (step p (message_update msg t [] c) s) = [] @ c @ []" by simp
    then show ?thesis by blast
  next
    case inside
    then have "resolveChunk t [] c (deltaBuffer s) = []"
      using resolveChunk_char [OF assms(1), of c "deltaBuffer s"] by auto
    with d inside(2) show ?thesis by simp
  next
    case new
    then have "resolveChunk t [] c (deltaBuffer s) = c"
      using resolveChunk_char [OF assms(1), of c "deltaBuffer s"] by auto
    with d have "deltaBuffer (step p (message_update msg t [] c) s) = deltaBuffer s @ c @ []" by simp
    then show ?thesis by blast
  qed
qed

lemma replay_of_contained:
  assumes "\<exists>a b. deltaBuffer s = a @ c @ b" "role msg = ''assistant''"
    and "\<forall>e \<in> set evts. \<not> clears_buffers e"
  shows "resolveChunk text_end [] c (deltaBuffer (run p evts s)) = []"
    and "deltaBuffer (step p (message_update msg text_end [] c) (run p evts s))
           = deltaBuffer (run p evts s)"
proof -
  obtain a b where ab: "deltaBuffer s = a @ c @ b" using assms(1) by blast
  obtain x where x: "deltaBuffer (run p evts s) = deltaBuffer s @ x"
    using run_extends_deltaBuffer [OF assms(3)] by blast
  have in': "deltaBuffer (run p evts s) = a @ c @ (b @ x)" using ab x by simp
  have te: "text_end = text_start \<or> text_end = text_end" by simp
  show r: "resolveChunk text_end [] c (deltaBuffer (run p evts s)) = []"
  proof (cases "\<exists>suffix. c = deltaBuffer (run p evts s) @ suffix")
    case True
    then obtain suffix where sf: "c = deltaBuffer (run p evts s) @ suffix" by blast
    then have "suffix = []" using contained_and_extended [OF sf in'] by simp
    with sf show ?thesis
      using resolveChunk_char [OF te, of c "deltaBuffer (run p evts s)"] by auto
  next
    case False
    with in' show ?thesis
      using resolveChunk_char [OF te, of c "deltaBuffer (run p evts s)"] by auto
  qed
  show "deltaBuffer (step p (message_update msg text_end [] c) (run p evts s))
           = deltaBuffer (run p evts s)"
    using assms(2) r by (simp add: message_update_deltaBuffer)
qed

text \<open>
  C1 (as amended).  For a \<open>text_start\<close> or \<open>text_end\<close> event of an assistant message:
  a non-empty delta is the chunk.  Without a delta, when \<open>content\<close> extends the buffer
  the appended suffix is the chunk; when the buffer contains \<open>content\<close> anywhere, as a
  prefix or further inside, the chunk is empty; and only when \<open>content\<close> neither
  extends the buffer nor occurs in it is all of \<open>content\<close> the chunk.  The handler
  appends the chunk to the delta buffer, so replaying a cumulative \<open>content\<close> that
  the buffer already holds leaves the buffer as it is.  A content is held by the buffer
  once an event has delivered it, as the content of a \<open>text_start\<close> or \<open>text_end\<close>
  or as the deltas of the message, and for as long as no event clears the buffer: its
  replay on a later \<open>text_end\<close> then resolves to the empty chunk and leaves the buffer
  as it is, whatever events came in between.
\<close>

theorem chunk_resolution_amended:
  "(t = text_start \<or> t = text_end) \<longrightarrow>
     (delta \<noteq> [] \<longrightarrow> resolveChunk t delta c buf = delta)
   \<and> (delta = [] \<longrightarrow> (\<forall>suffix. c = buf @ suffix \<longrightarrow> resolveChunk t delta c buf = suffix))
   \<and> (delta = [] \<longrightarrow> (\<exists>a b. buf = a @ c @ b) \<longrightarrow> resolveChunk t delta c buf = [])
   \<and> (delta = [] \<longrightarrow> (\<forall>a b. buf \<noteq> a @ c @ b) \<longrightarrow> (\<forall>suffix. c \<noteq> buf @ suffix) \<longrightarrow>
        resolveChunk t delta c buf = c)
   \<and> (role msg = ''assistant'' \<longrightarrow>
        deltaBuffer (step p (message_update msg t delta c) s)
          = deltaBuffer s @ resolveChunk t delta c (deltaBuffer s))
   \<and> (role msg = ''assistant'' \<longrightarrow> delta = [] \<longrightarrow> (\<exists>a b. deltaBuffer s = a @ c @ b) \<longrightarrow>
        deltaBuffer (step p (message_update msg t delta c) s) = deltaBuffer s)
   \<and> (role msg = ''assistant'' \<and> role msg' = ''assistant''
        \<and> (\<forall>e \<in> set evts. \<not> clears_buffers e) \<longrightarrow>
        resolveChunk text_end [] c
          (deltaBuffer (run p evts (step p (message_update msg t [] c) s))) = []
        \<and> deltaBuffer (step p (message_update msg' text_end [] c)
                         (run p evts (step p (message_update msg t [] c) s)))
            = deltaBuffer (run p evts (step p (message_update msg t [] c) s)))
   \<and> (role m0 = ''assistant'' \<and> role msg' = ''assistant''
        \<and> (\<forall>e \<in> set evts. \<not> clears_buffers e) \<longrightarrow>
        resolveChunk text_end [] (concat ds)
          (deltaBuffer (run p evts (run p (message_start m0 # map delta_event ds) s))) = []
        \<and> deltaBuffer (step p (message_update msg' text_end [] (concat ds))
                         (run p evts (run p (message_start m0 # map delta_event ds) s)))
            = deltaBuffer (run p evts (run p (message_start m0 # map delta_event ds) s)))"
proof (intro impI)
  assume t: "t = text_start \<or> t = text_end"
  have c1: "delta \<noteq> [] \<longrightarrow> resolveChunk t delta c buf = delta"
    using t by (auto simp: resolveChunk_def)
  have c2: "delta = [] \<longrightarrow> (\<forall>suffix. c = buf @ suffix \<longrightarrow> resolveChunk t delta c buf = suffix)"
    using resolveChunk_char [OF t] by auto
  have c3: "resolveChunk t [] c b' = []" if "\<exists>a b. b' = a @ c @ b" for b'
  proof (cases "\<exists>suffix. c = b' @ suffix")
    case True
    then obtain suffix where sf: "c = b' @ suffix" by blast
    with that have "suffix = []" using contained_and_extended by blast
    with sf show ?thesis using resolveChunk_char [OF t, of c b'] by auto
  next
    case False
    with that show ?thesis using resolveChunk_char [OF t, of c b'] by auto
  qed
  have c4: "delta = [] \<longrightarrow> (\<forall>a b. buf \<noteq> a @ c @ b) \<longrightarrow> (\<forall>suffix. c \<noteq> buf @ suffix) \<longrightarrow>
        resolveChunk t delta c buf = c"
    using resolveChunk_char [OF t, of c buf] by auto
  have c5: "role msg = ''assistant'' \<longrightarrow>
        deltaBuffer (step p (message_update msg t delta c) s)
          = deltaBuffer s @ resolveChunk t delta c (deltaBuffer s)"
    using t by (auto simp: message_update_deltaBuffer)
  have c6: "role msg = ''assistant'' \<longrightarrow> delta = [] \<longrightarrow> (\<exists>a b. deltaBuffer s = a @ c @ b) \<longrightarrow>
        deltaBuffer (step p (message_update msg t delta c) s) = deltaBuffer s"
  proof (intro impI)
    assume r: "role msg = ''assistant''" and d: "delta = []"
      and e: "\<exists>a b. deltaBuffer s = a @ c @ b"
    have "resolveChunk t [] c (deltaBuffer s) = []" using c3 [OF e] .
    with c5 r d show "deltaBuffer (step p (message_update msg t delta c) s) = deltaBuffer s"
      by simp
  qed
  have c7: "role msg = ''assistant'' \<and> role msg' = ''assistant''
        \<and> (\<forall>e \<in> set evts. \<not> clears_buffers e) \<longrightarrow>
        resolveChunk text_end [] c
          (deltaBuffer (run p evts (step p (message_update msg t [] c) s))) = []
        \<and> deltaBuffer (step p (message_update msg' text_end [] c)
                         (run p evts (step p (message_update msg t [] c) s)))
            = deltaBuffer (run p evts (step p (message_update msg t [] c) s))"
  proof (intro impI, elim conjE)
    assume r: "role msg = ''assistant''" and r': "role msg' = ''assistant''"
      and ev: "\<forall>e \<in> set evts. \<not> clears_buffers e"
    note held = delivered_content_contained [OF t r, of p c s]
    from replay_of_contained [OF held r' ev]
    show "resolveChunk text_end [] c
          (deltaBuffer (run p evts (step p (message_update msg t [] c) s))) = []
        \<and> deltaBuffer (step p (message_update msg' text_end [] c)
                         (run p evts (step p (message_update msg t [] c) s)))
            = deltaBuffer (run p evts (step p (message_update msg t [] c) s))"
      by simp
  qed
  have c8: "role m0 = ''assistant'' \<and> role msg' = ''assistant''
        \<and> (\<forall>e \<in> set evts. \<not> clears_buffers e) \<longrightarrow>
        resolveChunk text_end [] (concat ds)
          (deltaBuffer (run p evts (run p (message_start m0 # map delta_event ds) s))) = []
        \<and> deltaBuffer (step p (message_update msg' text_end [] (concat ds))
                         (run p evts (run p (message_start m0 # map delta_event ds) s)))
            = deltaBuffer (run p evts (run p (message_start m0 # map delta_event ds) s))"
  proof (intro impI, elim conjE)
    assume r0: "role m0 = ''assistant''" and r': "role msg' = ''assistant''"
      and ev: "\<forall>e \<in> set evts. \<not> clears_buffers e"
    have "run p (message_start m0 # map delta_event ds) s
            = run p (map delta_event ds) (handle_message_start p m0 s)"
      by (simp add: run_def)
    then have "deltaBuffer (run p (message_start m0 # map delta_event ds) s) = [] @ concat ds @ []"
      using r0 by (simp add: deltas_deltaBuffer handle_message_start_def)
    then have held: "\<exists>a b. deltaBuffer (run p (message_start m0 # map delta_event ds) s)
                        = a @ concat ds @ b"
      by blast
    from replay_of_contained [OF held r' ev]
    show "resolveChunk text_end [] (concat ds)
          (deltaBuffer (run p evts (run p (message_start m0 # map delta_event ds) s))) = []
        \<and> deltaBuffer (step p (message_update msg' text_end [] (concat ds))
                         (run p evts (run p (message_start m0 # map delta_event ds) s)))
            = deltaBuffer (run p evts (run p (message_start m0 # map delta_event ds) s))"
      by simp
  qed
  have c3': "delta = [] \<longrightarrow> (\<exists>a b. buf = a @ c @ b) \<longrightarrow> resolveChunk t delta c buf = []"
    using c3 [of buf] by auto
  show "(delta \<noteq> [] \<longrightarrow> resolveChunk t delta c buf = delta)
   \<and> (delta = [] \<longrightarrow> (\<forall>suffix. c = buf @ suffix \<longrightarrow> resolveChunk t delta c buf = suffix))
   \<and> (delta = [] \<longrightarrow> (\<exists>a b. buf = a @ c @ b) \<longrightarrow> resolveChunk t delta c buf = [])
   \<and> (delta = [] \<longrightarrow> (\<forall>a b. buf \<noteq> a @ c @ b) \<longrightarrow> (\<forall>suffix. c \<noteq> buf @ suffix) \<longrightarrow>
        resolveChunk t delta c buf = c)
   \<and> (role msg = ''assistant'' \<longrightarrow>
        deltaBuffer (step p (message_update msg t delta c) s)
          = deltaBuffer s @ resolveChunk t delta c (deltaBuffer s))
   \<and> (role msg = ''assistant'' \<longrightarrow> delta = [] \<longrightarrow> (\<exists>a b. deltaBuffer s = a @ c @ b) \<longrightarrow>
        deltaBuffer (step p (message_update msg t delta c) s) = deltaBuffer s)
   \<and> (role msg = ''assistant'' \<and> role msg' = ''assistant''
        \<and> (\<forall>e \<in> set evts. \<not> clears_buffers e) \<longrightarrow>
        resolveChunk text_end [] c
          (deltaBuffer (run p evts (step p (message_update msg t [] c) s))) = []
        \<and> deltaBuffer (step p (message_update msg' text_end [] c)
                         (run p evts (step p (message_update msg t [] c) s)))
            = deltaBuffer (run p evts (step p (message_update msg t [] c) s)))
   \<and> (role m0 = ''assistant'' \<and> role msg' = ''assistant''
        \<and> (\<forall>e \<in> set evts. \<not> clears_buffers e) \<longrightarrow>
        resolveChunk text_end [] (concat ds)
          (deltaBuffer (run p evts (run p (message_start m0 # map delta_event ds) s))) = []
        \<and> deltaBuffer (step p (message_update msg' text_end [] (concat ds))
                         (run p evts (run p (message_start m0 # map delta_event ds) s)))
            = deltaBuffer (run p evts (run p (message_start m0 # map delta_event ds) s)))"
    by (rule conjI [OF c1 conjI [OF c2 conjI [OF c3' conjI [OF c4 conjI [OF c5 conjI [OF c6
          conjI [OF c7 c8]]]]]]])
qed

lemma replay_example_facts:
  "role (assistant_msg []) = ''assistant''"
  "\<forall>e \<in> set [delta_event ''!'']. \<not> clears_buffers e"
  "deltaBuffer (run plain_params [delta_event ''!'']
     (step plain_params (message_update (assistant_msg []) text_end [] ''Hello'') (subscribe None)))
     = ''Hello!''"
  by code_simp+

theorem chunk_resolution_amended_witness:
  "resolveChunk text_end [] ''Hello world'' ''Hello'' = '' world''
   \<and> resolveChunk text_end [] ''Hello'' ''Hello world'' = []
   \<and> resolveChunk text_end [] ''world'' ''Hello world'' = []
   \<and> resolveChunk text_end [] ''Bye'' ''Hello'' = ''Bye''
   \<and> resolveChunk text_end ''!'' ''Hello'' ''Hello'' = ''!''
   \<and> deltaBuffer (step plain_params (text_end_event ''Hello'') ((subscribe None)\<lparr>deltaBuffer := ''Hello''\<rparr>)) = ''Hello''
   \<and> deltaBuffer (step plain_params (text_end_event ''Hello'')
        (run plain_params [delta_event ''!'']
           (step plain_params (text_end_event ''Hello'') (subscribe None)))) = ''Hello!''"
proof -
  have a: "resolveChunk text_end [] ''Hello world'' ''Hello'' = '' world''
   \<and> resolveChunk text_end [] ''Hello'' ''Hello world'' = []
   \<and> resolveChunk text_end [] ''world'' ''Hello world'' = []
   \<and> resolveChunk text_end [] ''Bye'' ''Hello'' = ''Bye''
   \<and> resolveChunk text_end ''!'' ''Hello'' ''Hello'' = ''!''
   \<and> deltaBuffer (step plain_params (text_end_event ''Hello'') ((subscribe None)\<lparr>deltaBuffer := ''Hello''\<rparr>)) = ''Hello''"
    using chunk_resolution_amended [of text_end "[]" "''Hello world''" "''Hello''" "assistant_msg []" plain_params "(subscribe None)\<lparr>deltaBuffer := ''Hello''\<rparr>"]
      chunk_resolution_amended [of text_end "[]" "''Hello''" "''Hello world''" "assistant_msg []" plain_params "(subscribe None)\<lparr>deltaBuffer := ''Hello''\<rparr>"]
      chunk_resolution_amended [of text_end "[]" "''Hello''" "''Hello''" "assistant_msg []" plain_params "(subscribe None)\<lparr>deltaBuffer := ''Hello''\<rparr>"]
    by (simp add: resolveChunk_def startsWith_def text_end_event_def assistant_msg_def subscribe_def)
  have b: "deltaBuffer (step plain_params (text_end_event ''Hello'')
        (run plain_params [delta_event ''!'']
           (step plain_params (text_end_event ''Hello'') (subscribe None)))) = ''Hello!''"
    using chunk_resolution_amended [where t = text_end and c = "''Hello''" and msg = "assistant_msg []"
        and msg' = "assistant_msg []" and p = plain_params and s = "subscribe None"
        and evts = "[delta_event ''!'']"]
      replay_example_facts
    by (simp add: text_end_event_def)
  from a b show ?thesis by simp
qed

text \<open>
  C1 as stated fails: with buffer \<open>ab\<close> and content \<open>b\<close> neither string is a prefix of
  the other, yet the chunk is empty and not \<open>b\<close>, because the source treats content
  only as new when \<open>!deltaBuffer.includes(content)\<close>.  And the replay of a delivered
  content is not always empty: once \<open>message_end\<close>, the next \<open>message_start\<close> or a
  compaction retry has cleared the buffer, a \<open>text_end\<close> that replays \<open>Hello\<close>
  resolves to all of \<open>Hello\<close> and the buffer changes.
\<close>

theorem chunk_resolution_counterexample:
  "resolveChunk text_end [] ''b'' ''ab'' = []
   \<and> \<not> startsWith ''b'' ''ab'' \<and> \<not> startsWith ''ab'' ''b''
   \<and> deltaBuffer (step plain_params (text_end_event ''b'') ((subscribe None)\<lparr>deltaBuffer := ''ab''\<rparr>)) = ''ab''
   \<and> deltaBuffer delivered_hello = ''Hello''
   \<and> deltaBuffer (step plain_params (message_end (assistant_msg ''Hello'')) delivered_hello) = []
   \<and> deltaBuffer (run plain_params
        [message_end (assistant_msg ''Hello''), text_end_event ''Hello''] delivered_hello) = ''Hello''
   \<and> deltaBuffer (step plain_params (message_start (assistant_msg [])) delivered_hello) = []
   \<and> deltaBuffer (run plain_params
        [message_start (assistant_msg []), text_end_event ''Hello''] delivered_hello) = ''Hello''
   \<and> deltaBuffer (step plain_params (auto_compaction_end True) delivered_hello) = []
   \<and> deltaBuffer (run plain_params
        [auto_compaction_end True, text_end_event ''Hello''] delivered_hello) = ''Hello''"
  by code_simp

section \<open>Reasoning segments across chunk boundaries\<close>

lemma think_split_ok_7: "think_split_ok 7"
  by code_simp

lemma think_split_ok_8: "think_split_ok 8"
  by code_simp

lemma think_split_ok_9: "think_split_ok 9"
  by code_simp

lemma think_split_ok_10: "think_split_ok 10"
  by code_simp

lemma think_split_ok_11: "think_split_ok 11"
  by code_simp

lemma think_split_ok_12: "think_split_ok 12"
  by code_simp

lemma think_split_ok_13: "think_split_ok 13"
  by code_simp

lemma think_split_ok_all:
  assumes "k \<in> {7..13}"
  shows "think_split_ok k"
proof -
  from assms have "k = 7 \<or> k = 8 \<or> k = 9 \<or> k = 10 \<or> k = 11 \<or> k = 12 \<or> k = 13"
    by auto
  then show ?thesis
    using think_split_ok_7 think_split_ok_8 think_split_ok_9 think_split_ok_10
      think_split_ok_11 think_split_ok_12 think_split_ok_13
    by blast
qed

lemma match_tag_other: "c \<noteq> CHR ''<'' \<Longrightarrow> match_tag name opt (c # cs) = None"
  by (simp add: match_tag_def)

lemma no_tag_without_lt:
  "CHR ''<'' \<notin> set s \<Longrightarrow> matchAll_from THINKING_TAG_SCAN_RE k i s = []"
  by (induction s arbitrary: k i) (auto simp: THINKING_TAG_SCAN_RE_def match_tag_other)

lemma open_marker_matches: "THINKING_TAG_SCAN_RE (''<think>'' @ rest) = Some (7, False)"
  by (simp add: THINKING_TAG_SCAN_RE_def match_tag_def is_js_space_def upper_of_def Let_def)

lemma close_marker_matches: "THINKING_TAG_SCAN_RE (''</think>'' @ rest) = Some (8, True)"
  by (simp add: THINKING_TAG_SCAN_RE_def match_tag_def is_js_space_def upper_of_def Let_def)

lemma matchAll_open:
  assumes "CHR ''<'' \<notin> set pre"
  shows "matchAll_from THINKING_TAG_SCAN_RE 0 i (pre @ ''<think>'' @ rest)
           = (i + length pre, 7, False)
               # matchAll_from THINKING_TAG_SCAN_RE 0 (i + length pre + 7) rest"
  using assms
proof (induction pre arbitrary: i)
  case Nil
  show ?case using open_marker_matches [of rest] by (simp add: eval_nat_numeral)
next
  case (Cons c pre)
  then have c: "c \<noteq> CHR ''<''" and pre: "CHR ''<'' \<notin> set pre" by auto
  have "THINKING_TAG_SCAN_RE (c # pre @ ''<think>'' @ rest) = None"
    using c by (simp add: THINKING_TAG_SCAN_RE_def match_tag_other)
  then show ?case using Cons.IH [OF pre, of "Suc i"] by simp
qed

lemma matchAll_close:
  assumes "CHR ''<'' \<notin> set pre"
  shows "matchAll_from THINKING_TAG_SCAN_RE 0 i (pre @ ''</think>'' @ rest)
           = (i + length pre, 8, True)
               # matchAll_from THINKING_TAG_SCAN_RE 0 (i + length pre + 8) rest"
  using assms
proof (induction pre arbitrary: i)
  case Nil
  show ?case using close_marker_matches [of rest] by (simp add: eval_nat_numeral)
next
  case (Cons c pre)
  then have c: "c \<noteq> CHR ''<''" and pre: "CHR ''<'' \<notin> set pre" by auto
  have "THINKING_TAG_SCAN_RE (c # pre @ ''</think>'' @ rest) = None"
    using c by (simp add: THINKING_TAG_SCAN_RE_def match_tag_other)
  then show ?case using Cons.IH [OF pre, of "Suc i"] by simp
qed

lemma exec_None_iff: "(exec re s = None) = (matchAll_from re 0 i s = [])"
  by (induction s arbitrary: i) (auto split: option.splits)

lemma test_iff_matchAll: "test re s = (matchAll re s \<noteq> [])"
  by (simp add: test_def matchAll_def exec_None_iff [of re s 0])

lemma stripThinkingSegments_strip_block:
  "stripThinkingSegments text = fst (strip_block False text)"
  by (simp add: stripThinkingSegments_def strip_block_def split: prod.splits)

lemma strip_block_open:
  assumes "CHR ''<'' \<notin> set pre" "CHR ''<'' \<notin> set h"
  shows "strip_block False (pre @ ''<think>'' @ h) = (pre, True)"
proof -
  define tx where "tx = pre @ ''<think>'' @ h"
  have m: "matchAll THINKING_TAG_SCAN_RE tx = [(length pre, 7, False)]"
    unfolding matchAll_def tx_def
    using matchAll_open [OF assms(1), of 0 h] no_tag_without_lt [OF assms(2)] by simp
  have t: "take (length pre) tx = pre" and ne: "tx \<noteq> []"
    by (simp_all add: tx_def)
  have "strip_block False tx = (pre, True)"
    by (simp add: strip_block_def test_iff_matchAll m strip_step_def slice_def t ne)
  then show ?thesis unfolding tx_def .
qed

lemma strip_block_inside:
  assumes "CHR ''<'' \<notin> set h"
  shows "strip_block True h = ([], True)"
proof -
  have m: "matchAll THINKING_TAG_SCAN_RE h = []"
    unfolding matchAll_def using no_tag_without_lt [OF assms] by simp
  show ?thesis by (simp add: strip_block_def m)
qed

lemma strip_block_close:
  assumes "CHR ''<'' \<notin> set h" "CHR ''<'' \<notin> set post"
  shows "strip_block True (h @ ''</think>'' @ post) = (post, False)"
proof -
  define tx where "tx = h @ ''</think>'' @ post"
  have m: "matchAll THINKING_TAG_SCAN_RE tx = [(length h, 8, True)]"
    unfolding matchAll_def tx_def
    using matchAll_close [OF assms(1), of 0 post] no_tag_without_lt [OF assms(2)] by simp
  have d: "drop (length h + 8) tx = post" and ne: "tx \<noteq> []"
    by (simp_all add: tx_def)
  have "strip_block True tx = (post, False)"
    by (simp add: strip_block_def m strip_step_def d ne)
  then show ?thesis unfolding tx_def .
qed

lemma strip_block_pair:
  assumes "CHR ''<'' \<notin> set pre" "CHR ''<'' \<notin> set h" "CHR ''<'' \<notin> set post"
  shows "strip_block False (pre @ ''<think>'' @ h @ ''</think>'' @ post) = (pre @ post, False)"
proof -
  define tx where "tx = pre @ ''<think>'' @ h @ ''</think>'' @ post"
  have m: "matchAll THINKING_TAG_SCAN_RE tx
      = [(length pre, 7, False), (length pre + 7 + length h, 8, True)]"
    unfolding matchAll_def tx_def
    using matchAll_open [OF assms(1), of 0 "h @ ''</think>'' @ post"]
      matchAll_close [OF assms(2), of "length pre + 7" post] no_tag_without_lt [OF assms(3)]
    by simp
  have t: "take (length pre) tx = pre" and ne: "tx \<noteq> []"
    by (simp_all add: tx_def)
  define front where "front = pre @ ''<think>'' @ h @ ''</think>''"
  have fl: "length front = length pre + 7 + length h + 8" and ft: "tx = front @ post"
    by (simp_all add: front_def tx_def)
  have d: "drop (15 + (length pre + length h)) tx = post"
    by (simp add: ft fl)
  have "strip_block False tx = (pre @ post, False)"
    by (simp add: strip_block_def test_iff_matchAll m strip_step_def slice_def t d ne)
  then show ?thesis unfolding tx_def .
qed


lemma think_example_split_10:
  "take 10 think_example = ''<think>hid''" "drop 10 think_example = ''den</think>visible''"
  by (simp_all add: think_example_def)



section \<open>Frame lemmas of the handlers\<close>

lemma recordFinalText_frame [simp]:
  "compactionInFlight (recordFinalText p text s) = compactionInFlight s"
  "pendingCompactionRetry (recordFinalText p text s) = pendingCompactionRetry s"
  "compactionRetryPromise (recordFinalText p text s) = compactionRetryPromise s"
  "messagingToolSentTexts (recordFinalText p text s) = messagingToolSentTexts s"
  "pendingMessagingTexts (recordFinalText p text s) = pendingMessagingTexts s"
  "lastBlockReplyText (recordFinalText p text s) = lastBlockReplyText s"
  "blockThinkingActive (recordFinalText p text s) = blockThinkingActive s"
  "blockChunker (recordFinalText p text s) = blockChunker s"
  "blockBuffer (recordFinalText p text s) = blockBuffer s"
  "deltaBuffer (recordFinalText p text s) = deltaBuffer s"
  "emitted (recordFinalText p text s) = emitted s"
  by (simp_all add: recordFinalText_def Let_def)

lemma emitReasoningReply_frame [simp]:
  "compactionInFlight (emitReasoningReply f s) = compactionInFlight s"
  "pendingCompactionRetry (emitReasoningReply f s) = pendingCompactionRetry s"
  "compactionRetryPromise (emitReasoningReply f s) = compactionRetryPromise s"
  "messagingToolSentTexts (emitReasoningReply f s) = messagingToolSentTexts s"
  "pendingMessagingTexts (emitReasoningReply f s) = pendingMessagingTexts s"
  "lastBlockReplyText (emitReasoningReply f s) = lastBlockReplyText s"
  "blockThinkingActive (emitReasoningReply f s) = blockThinkingActive s"
  "blockChunker (emitReasoningReply f s) = blockChunker s"
  "blockBuffer (emitReasoningReply f s) = blockBuffer s"
  "deltaBuffer (emitReasoningReply f s) = deltaBuffer s"
  "assistantTexts (emitReasoningReply f s) = assistantTexts s"
  by (simp_all add: emitReasoningReply_def)

lemma emitFinalBlockReply_frame [simp]:
  "compactionInFlight (emitFinalBlockReply p text s) = compactionInFlight s"
  "pendingCompactionRetry (emitFinalBlockReply p text s) = pendingCompactionRetry s"
  "compactionRetryPromise (emitFinalBlockReply p text s) = compactionRetryPromise s"
  "messagingToolSentTexts (emitFinalBlockReply p text s) = messagingToolSentTexts s"
  "pendingMessagingTexts (emitFinalBlockReply p text s) = pendingMessagingTexts s"
  "blockBuffer (emitFinalBlockReply p text s) = blockBuffer s"
  "deltaBuffer (emitFinalBlockReply p text s) = deltaBuffer s"
  by (simp_all add: emitFinalBlockReply_def Let_def split: prod.splits)

lemma endOfMessageReset_frame [simp]:
  "compactionInFlight (endOfMessageReset p s) = compactionInFlight s"
  "pendingCompactionRetry (endOfMessageReset p s) = pendingCompactionRetry s"
  "compactionRetryPromise (endOfMessageReset p s) = compactionRetryPromise s"
  "messagingToolSentTexts (endOfMessageReset p s) = messagingToolSentTexts s"
  "pendingMessagingTexts (endOfMessageReset p s) = pendingMessagingTexts s"
  "lastBlockReplyText (endOfMessageReset p s) = lastBlockReplyText s"
  "assistantTexts (endOfMessageReset p s) = assistantTexts s"
  "emitted (endOfMessageReset p s) = emitted s"
  by (simp_all add: endOfMessageReset_def)

lemma handle_message_start_frame [simp]:
  "compactionInFlight (handle_message_start p msg s) = compactionInFlight s"
  "pendingCompactionRetry (handle_message_start p msg s) = pendingCompactionRetry s"
  "compactionRetryPromise (handle_message_start p msg s) = compactionRetryPromise s"
  "messagingToolSentTexts (handle_message_start p msg s) = messagingToolSentTexts s"
  "pendingMessagingTexts (handle_message_start p msg s) = pendingMessagingTexts s"
  "assistantTexts (handle_message_start p msg s) = assistantTexts s"
  "emitted (handle_message_start p msg s) = emitted s"
  by (simp_all add: handle_message_start_def)

lemma handle_tool_execution_start_frame [simp]:
  "compactionInFlight (handle_tool_execution_start p e s) = compactionInFlight s"
  "pendingCompactionRetry (handle_tool_execution_start p e s) = pendingCompactionRetry s"
  "compactionRetryPromise (handle_tool_execution_start p e s) = compactionRetryPromise s"
  "messagingToolSentTexts (handle_tool_execution_start p e s) = messagingToolSentTexts s"
  "assistantTexts (handle_tool_execution_start p e s) = assistantTexts s"
  "lastBlockReplyText (handle_tool_execution_start p e s) = lastBlockReplyText s"
  by (simp_all add: handle_tool_execution_start_def Let_def split: js_val.splits option.splits)

lemma handle_tool_execution_end_frame [simp]:
  "compactionInFlight (handle_tool_execution_end name callId isError s) = compactionInFlight s"
  "pendingCompactionRetry (handle_tool_execution_end name callId isError s) = pendingCompactionRetry s"
  "compactionRetryPromise (handle_tool_execution_end name callId isError s) = compactionRetryPromise s"
  "assistantTexts (handle_tool_execution_end name callId isError s) = assistantTexts s"
  "lastBlockReplyText (handle_tool_execution_end name callId isError s) = lastBlockReplyText s"
  "emitted (handle_tool_execution_end name callId isError s) = emitted s"
  by (simp_all add: handle_tool_execution_end_def Let_def split: option.splits)

lemma handle_message_update_frame [simp]:
  "compactionInFlight (handle_message_update p msg t delta c s) = compactionInFlight s"
  "pendingCompactionRetry (handle_message_update p msg t delta c s) = pendingCompactionRetry s"
  "compactionRetryPromise (handle_message_update p msg t delta c s) = compactionRetryPromise s"
  "messagingToolSentTexts (handle_message_update p msg t delta c s) = messagingToolSentTexts s"
  "pendingMessagingTexts (handle_message_update p msg t delta c s) = pendingMessagingTexts s"
  by (simp_all add: handle_message_update_def Let_def)

lemma handle_message_end_frame [simp]:
  "compactionInFlight (handle_message_end p msg s) = compactionInFlight s"
  "pendingCompactionRetry (handle_message_end p msg s) = pendingCompactionRetry s"
  "compactionRetryPromise (handle_message_end p msg s) = compactionRetryPromise s"
  "messagingToolSentTexts (handle_message_end p msg s) = messagingToolSentTexts s"
  "pendingMessagingTexts (handle_message_end p msg s) = pendingMessagingTexts s"
  by (simp_all add: handle_message_end_def Let_def)

lemma handle_message_end_decomp:
  assumes "role msg = ''assistant''"
  shows "\<exists>T b1 b2 b3 f r.
    handle_message_end p msg s =
      endOfMessageReset p
        (let s3 = (if b1 then emitReasoningReply f (recordFinalText p T s)
                   else recordFinalText p T s);
             s4 = emitFinalBlockReply p T s3;
             s5 = (if b2 then emitReasoningReply f s4 else s4)
         in if b3 then emitReasoningStream p r s5 else s5)"
  apply (simp only: handle_message_end_def Let_def assms simp_thms if_False)
  apply (intro exI)
  apply (rule refl)
  done

section \<open>Compaction retry\<close>

lemma step_compaction_frame:
  assumes "e \<noteq> auto_compaction_start" "\<forall>w. e \<noteq> auto_compaction_end w" "e \<noteq> agent_end"
  shows "compactionInFlight (step p e s) = compactionInFlight s"
    and "pendingCompactionRetry (step p e s) = pendingCompactionRetry s"
    and "compactionRetryPromise (step p e s) = compactionRetryPromise s"
  using assms by (cases e; simp)+

lemma gate_resolves_only_when_clear:
  assumes "compactionRetryPromise s" "\<not> compactionRetryPromise (step p e s)"
  shows "pendingCompactionRetry (step p e s) = 0 \<and> \<not> compactionInFlight (step p e s)"
proof (cases "e = auto_compaction_start \<or> (\<exists>w. e = auto_compaction_end w) \<or> e = agent_end")
  case False
  then show ?thesis using assms step_compaction_frame(3) [of e p s] by auto
next
  case True
  then consider "e = auto_compaction_start" | w where "e = auto_compaction_end w" | "e = agent_end"
    by blast
  then show ?thesis
  proof cases
    case 1
    with assms show ?thesis
      by (simp add: handle_auto_compaction_start_def ensureCompactionPromise_def)
  next
    case 2
    with assms show ?thesis
      by (cases w)
        (auto simp: handle_auto_compaction_end_def resetForCompactionRetry_def
          noteCompactionRetry_def ensureCompactionPromise_def maybeResolveCompactionWait_def
          Let_def split: if_splits)
  next
    case 3
    with assms show ?thesis
      by (auto simp: handle_agent_end_def resolveCompactionRetry_def
          maybeResolveCompactionWait_def Let_def split: if_splits)
  qed
qed

text \<open>
  C5.  A \<open>auto_compaction_end\<close> event with \<open>willRetry\<close> empties the delta buffer and
  the block buffer, resets the chunker, clears the block reasoning flag, the
  accumulated assistant texts with their baseline, the tool metadata, the committed and
  pending messaging-tool texts and targets and the last streamed and last block texts,
  and adds one to the pending-retry counter; compaction is no longer in flight, the
  shared promise exists and \<open>isCompacting\<close> holds.  \<open>isCompacting\<close> is true exactly
  when a compaction is in flight or the counter is positive.  Whatever event settles the
  shared promise leaves the counter at zero with no compaction in flight.
  \<open>waitForCompactionRetry\<close> hands out the shared promise exactly while \<open>isCompacting\<close>
  holds, and its microtask resolves exactly when it does not.
\<close>

theorem compaction_retry_reset_and_gate:
  "(let s' = step p (auto_compaction_end True) s
    in deltaBuffer s' = [] \<and> blockBuffer s' = [] \<and> \<not> blockThinkingActive s'
       \<and> blockChunker s' = map_option (chunker_reset (blockReplyChunking p)) (blockChunker s)
       \<and> assistantTexts s' = [] \<and> assistantTextBaseline s' = 0
       \<and> toolMetas s' = [] \<and> toolMetaById s' = Map.empty \<and> toolSummaryById s' = {}
       \<and> messagingToolSentTexts s' = [] \<and> messagingToolSentTargets s' = []
       \<and> pendingMessagingTexts s' = Map.empty \<and> pendingMessagingTargets s' = Map.empty
       \<and> lastStreamedAssistant s' = None \<and> lastStreamedReasoning s' = None
       \<and> lastBlockReplyText s' = None
       \<and> pendingCompactionRetry s' = pendingCompactionRetry s + 1
       \<and> \<not> compactionInFlight s' \<and> compactionRetryPromise s' \<and> isCompacting s'
       \<and> emitted s' = emitted s)
   \<and> isCompacting s = (compactionInFlight s \<or> pendingCompactionRetry s > 0)
   \<and> (\<forall>e. compactionRetryPromise s \<and> \<not> compactionRetryPromise (step p e s) \<longrightarrow>
          pendingCompactionRetry (step p e s) = 0 \<and> \<not> compactionInFlight (step p e s))
   \<and> (fst (waitForCompactionRetry s) = WaitOnPromise) = isCompacting s
   \<and> (isCompacting s \<longrightarrow> compactionRetryPromise (snd (waitForCompactionRetry s)))
   \<and> (fst (waitForCompactionRetry_microtask s) = WaitResolved) = (\<not> isCompacting s)
   \<and> (isCompacting s \<longrightarrow> compactionRetryPromise (snd (waitForCompactionRetry_microtask s)))"
proof -
  have reset: "let s' = step p (auto_compaction_end True) s
    in deltaBuffer s' = [] \<and> blockBuffer s' = [] \<and> \<not> blockThinkingActive s'
       \<and> blockChunker s' = map_option (chunker_reset (blockReplyChunking p)) (blockChunker s)
       \<and> assistantTexts s' = [] \<and> assistantTextBaseline s' = 0
       \<and> toolMetas s' = [] \<and> toolMetaById s' = Map.empty \<and> toolSummaryById s' = {}
       \<and> messagingToolSentTexts s' = [] \<and> messagingToolSentTargets s' = []
       \<and> pendingMessagingTexts s' = Map.empty \<and> pendingMessagingTargets s' = Map.empty
       \<and> lastStreamedAssistant s' = None \<and> lastStreamedReasoning s' = None
       \<and> lastBlockReplyText s' = None
       \<and> pendingCompactionRetry s' = pendingCompactionRetry s + 1
       \<and> \<not> compactionInFlight s' \<and> compactionRetryPromise s' \<and> isCompacting s'
       \<and> emitted s' = emitted s"
    by (cases "compactionRetryPromise s")
      (simp_all add: handle_auto_compaction_end_def resetForCompactionRetry_def
        noteCompactionRetry_def ensureCompactionPromise_def resetChunker_def isCompacting_def
        Let_def)
  have compacting: "isCompacting s = (compactionInFlight s \<or> pendingCompactionRetry s > 0)"
    by (simp add: isCompacting_def)
  have gate: "\<forall>e. compactionRetryPromise s \<and> \<not> compactionRetryPromise (step p e s) \<longrightarrow>
          pendingCompactionRetry (step p e s) = 0 \<and> \<not> compactionInFlight (step p e s)"
    using gate_resolves_only_when_clear by blast
  have wait: "(fst (waitForCompactionRetry s) = WaitOnPromise) = isCompacting s
   \<and> (isCompacting s \<longrightarrow> compactionRetryPromise (snd (waitForCompactionRetry s)))
   \<and> (fst (waitForCompactionRetry_microtask s) = WaitResolved) = (\<not> isCompacting s)
   \<and> (isCompacting s \<longrightarrow> compactionRetryPromise (snd (waitForCompactionRetry_microtask s)))"
    by (simp add: waitForCompactionRetry_def waitForCompactionRetry_microtask_def
        isCompacting_def ensureCompactionPromise_def)
  show ?thesis
    by (rule conjI [OF reset conjI [OF compacting conjI [OF gate wait]]])
qed

theorem compaction_retry_reset_and_gate_witness:
  "deltaBuffer (step plain_params (auto_compaction_end True) compacting_example) = []
   \<and> assistantTexts (step plain_params (auto_compaction_end True) compacting_example) = []
   \<and> pendingCompactionRetry (step plain_params (auto_compaction_end True) compacting_example) = 1
   \<and> isCompacting compacting_example
   \<and> compactionRetryPromise (step plain_params (auto_compaction_end True) compacting_example)
   \<and> \<not> compactionRetryPromise (step plain_params (auto_compaction_end False) compacting_example)
   \<and> pendingCompactionRetry (step plain_params (auto_compaction_end False) compacting_example) = 0
   \<and> \<not> compactionInFlight (step plain_params (auto_compaction_end False) compacting_example)
   \<and> fst (waitForCompactionRetry compacting_example) = WaitOnPromise"
proof -
  note w = compaction_retry_reset_and_gate [of plain_params compacting_example, unfolded Let_def]
  have p: "compactionRetryPromise compacting_example"
    and c: "compactionInFlight compacting_example"
    by (simp_all add: compacting_example_def)
  have n: "\<not> compactionRetryPromise (step plain_params (auto_compaction_end False) compacting_example)"
    by (simp add: compacting_example_def handle_auto_compaction_end_def
        maybeResolveCompactionWait_def subscribe_def)
  have ic: "isCompacting compacting_example"
    using w c by blast
  from w p n
  have g: "pendingCompactionRetry (step plain_params (auto_compaction_end False) compacting_example) = 0
     \<and> \<not> compactionInFlight (step plain_params (auto_compaction_end False) compacting_example)"
    by blast
  have z: "pendingCompactionRetry compacting_example = 0"
    by (simp add: compacting_example_def subscribe_def)
  from w ic g n z show ?thesis by simp
qed

section \<open>Messaging-tool deduplication\<close>

lemma handle_agent_end_sent [simp]:
  "messagingToolSentTexts (handle_agent_end p s) = messagingToolSentTexts s"
  by (simp add: handle_agent_end_def resolveCompactionRetry_def maybeResolveCompactionWait_def
      Let_def)

lemma compaction_handlers_sent [simp]:
  "messagingToolSentTexts (handle_auto_compaction_start s) = messagingToolSentTexts s"
  "messagingToolSentTexts (handle_auto_compaction_end p False s) = messagingToolSentTexts s"
  by (simp_all add: handle_auto_compaction_start_def handle_auto_compaction_end_def
      ensureCompactionPromise_def maybeResolveCompactionWait_def Let_def)

lemma tool_execution_end_sent:
  "messagingToolSentTexts (handle_tool_execution_end name callId True s) = messagingToolSentTexts s"
  "pendingMessagingTexts s callId = Some t \<Longrightarrow> t \<noteq> [] \<Longrightarrow>
     pendingMessagingTexts (handle_tool_execution_end name callId isError s) callId = None"
  "pendingMessagingTexts s callId = Some t \<Longrightarrow> t \<noteq> [] \<Longrightarrow>
     messagingToolSentTexts (handle_tool_execution_end name callId False s)
       = messagingToolSentTexts s @ [t]"
  by (simp_all add: handle_tool_execution_end_def Let_def split: option.splits)

lemma sent_texts_change_only_on_commit:
  assumes "messagingToolSentTexts (step p e s) \<noteq> messagingToolSentTexts s"
  shows "(\<exists>n i. e = tool_execution_end n i False) \<or> e = auto_compaction_end True"
proof (cases e)
  case (tool_execution_end n i isError)
  with assms show ?thesis by (cases isError) (simp_all add: tool_execution_end_sent(1))
next
  case (auto_compaction_end w)
  with assms show ?thesis by (cases w) simp_all
qed (use assms in simp_all)

lemma emitBlockChunk_ignores_pending:
  "emitBlockChunk p text (s\<lparr>pendingMessagingTexts := m\<rparr>)
     = (emitBlockChunk p text s)\<lparr>pendingMessagingTexts := m\<rparr>"
  by (simp add: emitBlockChunk_def stripBlock_eq Let_def split: prod.splits)

lemma foldl_emit_ignores_pending:
  "foldl (\<lambda>s' chunk. emitBlockChunk p chunk s') (s\<lparr>pendingMessagingTexts := m\<rparr>) cs
     = (foldl (\<lambda>s' chunk. emitBlockChunk p chunk s') s cs)\<lparr>pendingMessagingTexts := m\<rparr>"
  by (induction cs arbitrary: s) (simp_all add: emitBlockChunk_ignores_pending)

lemma drainChunker_ignores_pending:
  "drainChunker p force (s\<lparr>pendingMessagingTexts := m\<rparr>)
     = (drainChunker p force s)\<lparr>pendingMessagingTexts := m\<rparr>"
proof (cases "blockChunker s")
  case None
  then show ?thesis by (simp add: drainChunker_def)
next
  case (Some c)
  obtain chunks c' where d: "chunker_drain (blockReplyChunking p) force c = (chunks, c')"
    by (cases "chunker_drain (blockReplyChunking p) force c")
  have eq: "s\<lparr>pendingMessagingTexts := m, blockChunker := Some c'\<rparr>
          = s\<lparr>blockChunker := Some c', pendingMessagingTexts := m\<rparr>"
    by simp
  have "foldl (\<lambda>s' chunk. emitBlockChunk p chunk s')
          (s\<lparr>pendingMessagingTexts := m, blockChunker := Some c'\<rparr>) chunks
        = foldl (\<lambda>s' chunk. emitBlockChunk p chunk s')
          (s\<lparr>blockChunker := Some c', pendingMessagingTexts := m\<rparr>) chunks"
    by (subst eq) (rule refl)
  also have "\<dots> = (foldl (\<lambda>s' chunk. emitBlockChunk p chunk s')
          (s\<lparr>blockChunker := Some c'\<rparr>) chunks)\<lparr>pendingMessagingTexts := m\<rparr>"
    by (rule foldl_emit_ignores_pending)
  finally show ?thesis using Some d by (simp add: drainChunker_def)
qed

lemma emitFinalBlockReply_ignores_pending:
  "emitFinalBlockReply p text (s\<lparr>pendingMessagingTexts := m\<rparr>)
     = (emitFinalBlockReply p text s)\<lparr>pendingMessagingTexts := m\<rparr>"
  by (cases "blockChunker s")
    (simp_all add: emitFinalBlockReply_def hasBuffered_def resetChunker_def
      drainChunker_ignores_pending Let_def split: prod.splits)

lemma emitBlockChunk_suppressed:
  assumes "isMessagingToolDuplicate p = exactDuplicate"
    and "trimEnd (fst (stripBlockThinkingSegments text s)) \<in> set (messagingToolSentTexts s)"
  shows "assistantTexts (emitBlockChunk p text s) = assistantTexts s"
    and "emitted (emitBlockChunk p text s) = emitted s"
  using assms
  by (simp_all add: emitBlockChunk_def stripBlock_eq exactDuplicate_def Let_def)

lemma emitBlockChunk_accepted:
  assumes "isMessagingToolDuplicate p = exactDuplicate"
    and "trimEnd (fst (stripBlockThinkingSegments text s)) \<noteq> []"
    and "lastBlockReplyText s \<noteq> Some (trimEnd (fst (stripBlockThinkingSegments text s)))"
    and "trimEnd (fst (stripBlockThinkingSegments text s)) \<notin> set (messagingToolSentTexts s)"
  shows "assistantTexts (emitBlockChunk p text s)
           = assistantTexts s @ [trimEnd (fst (stripBlockThinkingSegments text s))]"
  using assms
  by (simp add: emitBlockChunk_def stripBlock_eq exactDuplicate_def Let_def split: prod.splits)

lemma emitFinalBlockReply_suppressed:
  assumes "isMessagingToolDuplicate p = exactDuplicate"
    and "text \<in> set (messagingToolSentTexts s)" and "\<not> hasBuffered p s"
  shows "emitted (emitFinalBlockReply p text s) = emitted s"
  using assms by (simp add: emitFinalBlockReply_def exactDuplicate_def)

lemma handle_message_end_final:
  assumes "role msg = ''assistant''"
  shows "\<exists>b1 b2 b3 f r.
    handle_message_end p msg s =
      endOfMessageReset p
        (let s3 = (if b1 then emitReasoningReply f (recordFinalText p (finalText p (extractAssistantText (promoteThinkingTagsToBlocks msg))) s)
                   else recordFinalText p (finalText p (extractAssistantText (promoteThinkingTagsToBlocks msg))) s);
             s4 = emitFinalBlockReply p (finalText p (extractAssistantText (promoteThinkingTagsToBlocks msg))) s3;
             s5 = (if b2 then emitReasoningReply f s4 else s4)
         in if b3 then emitReasoningStream p r s5 else s5)"
  apply (simp only: handle_message_end_def Let_def assms simp_thms if_False)
  apply (intro exI)
  apply (rule refl)
  done

lemma emitFinalBlockReply_exact:
  assumes "\<not> hasBuffered p s"
  shows "emitted (emitFinalBlockReply p T s) = emitted s @
     (if (blockReplyBreak p = break_message_end \<or> (blockChunker s = None \<and> blockBuffer s \<noteq> []))
         \<and> T \<noteq> [] \<and> onBlockReply p \<and> lastBlockReplyText s \<noteq> Some T
         \<and> \<not> isMessagingToolDuplicate p T (messagingToolSentTexts s)
         \<and> splitMediaFromOutput p T \<noteq> ([], [])
      then [BlockReply T] else [])"
    and "assistantTexts (emitFinalBlockReply p T s) = assistantTexts s"
  using assms
  by (cases "blockChunker s"; cases "splitMediaFromOutput p T";
      auto simp: emitFinalBlockReply_def hasBuffered_def Let_def)+

lemma recordFinalText_exact:
  "assistantTexts (recordFinalText p T s) = assistantTexts s @
     (if \<not> length (assistantTexts s) > assistantTextBaseline s \<and> \<not> hasBuffered p s \<and> T \<noteq> []
         \<and> (assistantTexts s = [] \<or> last (assistantTexts s) \<noteq> T)
      then [T] else [])"
  by (auto simp: recordFinalText_def Let_def)

lemma emitBlockChunk_exact:
  "assistantTexts (emitBlockChunk p text s)
     = assistantTexts s @
       (if trimEnd (fst (stripBlockThinkingSegments text s)) \<noteq> [] \<and> lastBlockReplyText s \<noteq> Some (trimEnd (fst (stripBlockThinkingSegments text s)))
           \<and> \<not> isMessagingToolDuplicate p (trimEnd (fst (stripBlockThinkingSegments text s))) (messagingToolSentTexts s)
        then [trimEnd (fst (stripBlockThinkingSegments text s))] else [])"
  "emitted (emitBlockChunk p text s)
     = emitted s @
       (if trimEnd (fst (stripBlockThinkingSegments text s)) \<noteq> [] \<and> lastBlockReplyText s \<noteq> Some (trimEnd (fst (stripBlockThinkingSegments text s)))
           \<and> \<not> isMessagingToolDuplicate p (trimEnd (fst (stripBlockThinkingSegments text s))) (messagingToolSentTexts s)
           \<and> onBlockReply p \<and> splitMediaFromOutput p (trimEnd (fst (stripBlockThinkingSegments text s))) \<noteq> ([], [])
        then [BlockReply (trimEnd (fst (stripBlockThinkingSegments text s)))] else [])"
  by (cases "splitMediaFromOutput p (trimEnd (fst (strip_block (blockThinkingActive s) text)))";
      auto simp: emitBlockChunk_def stripBlock_eq Let_def)+

lemma message_end_exact:
  assumes "role msg = ''assistant''" "\<not> hasBuffered p s"
  shows "blockReplies (emitted (handle_message_end p msg s))
            = blockReplies (emitted s) @
              (if (blockReplyBreak p = break_message_end \<or> (blockChunker s = None \<and> blockBuffer s \<noteq> []))
               \<and> finalText p (extractAssistantText (promoteThinkingTagsToBlocks msg)) \<noteq> [] \<and> onBlockReply p
               \<and> lastBlockReplyText s \<noteq> Some (finalText p (extractAssistantText (promoteThinkingTagsToBlocks msg)))
               \<and> \<not> isMessagingToolDuplicate p (finalText p (extractAssistantText (promoteThinkingTagsToBlocks msg))) (messagingToolSentTexts s)
               \<and> splitMediaFromOutput p (finalText p (extractAssistantText (promoteThinkingTagsToBlocks msg))) \<noteq> ([], [])
               then [finalText p (extractAssistantText (promoteThinkingTagsToBlocks msg))] else [])"
    and "assistantTexts (handle_message_end p msg s)
            = assistantTexts s @
              (if \<not> length (assistantTexts s) > assistantTextBaseline s \<and> finalText p (extractAssistantText (promoteThinkingTagsToBlocks msg)) \<noteq> []
               \<and> (assistantTexts s = [] \<or> last (assistantTexts s) \<noteq> finalText p (extractAssistantText (promoteThinkingTagsToBlocks msg)))
               then [finalText p (extractAssistantText (promoteThinkingTagsToBlocks msg))] else [])"
proof -
  define T where "T = finalText p (extractAssistantText (promoteThinkingTagsToBlocks msg))"
  obtain b1 b2 b3 f r where d: "handle_message_end p msg s =
      endOfMessageReset p
        (let s3 = (if b1 then emitReasoningReply f (recordFinalText p T s)
                   else recordFinalText p T s);
             s4 = emitFinalBlockReply p T s3;
             s5 = (if b2 then emitReasoningReply f s4 else s4)
         in if b3 then emitReasoningStream p r s5 else s5)"
    unfolding T_def using handle_message_end_final [OF assms(1)] by blast
  let ?s3 = "if b1 then emitReasoningReply f (recordFinalText p T s) else recordFinalText p T s"
  have nb: "\<not> hasBuffered p ?s3" using assms(2) by (simp add: hasBuffered_def)
  have f3: "blockChunker ?s3 = blockChunker s" "blockBuffer ?s3 = blockBuffer s"
    "lastBlockReplyText ?s3 = lastBlockReplyText s"
    "messagingToolSentTexts ?s3 = messagingToolSentTexts s"
    "blockReplies (emitted ?s3) = blockReplies (emitted s)"
    by (simp_all add: emitReasoningReply_def)
  have t3: "assistantTexts ?s3 = assistantTexts (recordFinalText p T s)" by simp
  note e4 = emitFinalBlockReply_exact [OF nb, of T]
  have b4: "blockReplies (emitted (emitFinalBlockReply p T ?s3))
      = blockReplies (emitted s) @
        (if (blockReplyBreak p = break_message_end \<or> (blockChunker s = None \<and> blockBuffer s \<noteq> []))
            \<and> T \<noteq> [] \<and> onBlockReply p \<and> lastBlockReplyText s \<noteq> Some T
            \<and> \<not> isMessagingToolDuplicate p T (messagingToolSentTexts s)
            \<and> splitMediaFromOutput p T \<noteq> ([], [])
         then [T] else [])"
    unfolding e4(1) f3 by (simp add: f3(5))
  have a4: "assistantTexts (emitFinalBlockReply p T ?s3) = assistantTexts (recordFinalText p T s)"
    unfolding e4(2) by (rule t3)
  let ?s5 = "if b2 then emitReasoningReply f (emitFinalBlockReply p T ?s3)
             else emitFinalBlockReply p T ?s3"
  have f5: "blockReplies (emitted ?s5) = blockReplies (emitted (emitFinalBlockReply p T ?s3))"
    "assistantTexts ?s5 = assistantTexts (emitFinalBlockReply p T ?s3)"
    by (simp_all add: emitReasoningReply_def)
  let ?s6 = "if b3 then emitReasoningStream p r ?s5 else ?s5"
  have f6: "blockReplies (emitted ?s6) = blockReplies (emitted ?s5)"
    "assistantTexts ?s6 = assistantTexts ?s5"
    by simp_all
  have h: "handle_message_end p msg s = endOfMessageReset p ?s6"
    unfolding d Let_def ..
  have "blockReplies (emitted (handle_message_end p msg s))
      = blockReplies (emitted s) @
        (if (blockReplyBreak p = break_message_end \<or> (blockChunker s = None \<and> blockBuffer s \<noteq> []))
            \<and> T \<noteq> [] \<and> onBlockReply p \<and> lastBlockReplyText s \<noteq> Some T
            \<and> \<not> isMessagingToolDuplicate p T (messagingToolSentTexts s)
            \<and> splitMediaFromOutput p T \<noteq> ([], [])
         then [T] else [])"
    unfolding h using f5(1) f6(1) b4 by simp
  then show "blockReplies (emitted (handle_message_end p msg s))
            = blockReplies (emitted s) @
              (if (blockReplyBreak p = break_message_end \<or> (blockChunker s = None \<and> blockBuffer s \<noteq> []))
               \<and> finalText p (extractAssistantText (promoteThinkingTagsToBlocks msg)) \<noteq> [] \<and> onBlockReply p
               \<and> lastBlockReplyText s \<noteq> Some (finalText p (extractAssistantText (promoteThinkingTagsToBlocks msg)))
               \<and> \<not> isMessagingToolDuplicate p (finalText p (extractAssistantText (promoteThinkingTagsToBlocks msg))) (messagingToolSentTexts s)
               \<and> splitMediaFromOutput p (finalText p (extractAssistantText (promoteThinkingTagsToBlocks msg))) \<noteq> ([], [])
               then [finalText p (extractAssistantText (promoteThinkingTagsToBlocks msg))] else [])"
    unfolding T_def .
  have "assistantTexts (handle_message_end p msg s)
      = assistantTexts s @
        (if \<not> length (assistantTexts s) > assistantTextBaseline s \<and> T \<noteq> []
            \<and> (assistantTexts s = [] \<or> last (assistantTexts s) \<noteq> T)
         then [T] else [])"
    unfolding h using f5(2) f6(2) a4 assms(2) by (simp add: recordFinalText_exact)
  then show "assistantTexts (handle_message_end p msg s)
            = assistantTexts s @
              (if \<not> length (assistantTexts s) > assistantTextBaseline s \<and> finalText p (extractAssistantText (promoteThinkingTagsToBlocks msg)) \<noteq> []
               \<and> (assistantTexts s = [] \<or> last (assistantTexts s) \<noteq> finalText p (extractAssistantText (promoteThinkingTagsToBlocks msg)))
               then [finalText p (extractAssistantText (promoteThinkingTagsToBlocks msg))] else [])"
    unfolding T_def .
qed


lemma done_example_facts:
  "pendingMessagingTexts done_pending ''call1'' = Some ''Done!''"
  "messagingToolSentTexts done_pending = []"
  "messagingToolSentTexts done_failed = []"
  "lastBlockReplyText done_failed = None"
  "trimEnd (fst (stripBlockThinkingSegments ''Done!'' done_failed)) = ''Done!''"
  "trimEnd (fst (stripBlockThinkingSegments ''Done!'' done_committed)) = ''Done!''"
  "assistantTexts done_failed = []"
  "assistantTexts done_committed = []"
  "emitted done_committed = []"
  "emitted done_failed = []"
  "onBlockReply plain_params"
  by code_simp+

lemma done_final_facts:
  "role (assistant_msg ''Done!'') = ''assistant''"
  "\<not> hasBuffered message_end_params done_committed"
  "\<not> hasBuffered message_end_params done_failed"
  "finalText message_end_params
     (extractAssistantText (promoteThinkingTagsToBlocks (assistant_msg ''Done!''))) = ''Done!''"
  "blockReplyBreak message_end_params = break_message_end"
  "onBlockReply message_end_params"
  "lastBlockReplyText done_committed = None"
  "assistantTextBaseline done_committed = 0"
  "assistantTextBaseline done_failed = 0"
  by code_simp+

lemma message_end_params_fields:
  "isMessagingToolDuplicate message_end_params = exactDuplicate"
  "splitMediaFromOutput message_end_params = (\<lambda>t. (t, []))"
  "isMessagingToolDuplicate plain_params = exactDuplicate"
  "splitMediaFromOutput plain_params = (\<lambda>t. (t, []))"
  by (simp_all add: message_end_params_def plain_params_def params_with_def)



section \<open>Repeated texts within one message\<close>

lemma streamedTexts_simps [simp]:
  "streamedTexts [] = []"
  "streamedTexts (xs @ ys) = streamedTexts xs @ streamedTexts ys"
  "streamedTexts (BlockReply t # xs) = streamedTexts xs"
  "streamedTexts (ReasoningReply t # xs) = streamedTexts xs"
  "streamedTexts (ReasoningStream t # xs) = streamedTexts xs"
  "streamedTexts (AssistantEvent t # xs) = t # streamedTexts xs"
  "streamedTexts (PartialReply t # xs) = streamedTexts xs"
  "streamedTexts (ToolSummary n m # xs) = streamedTexts xs"
  "streamedTexts (CompactionRetryResolved # xs) = streamedTexts xs"
  by (simp_all add: streamedTexts_def)

lemma opt_list_simps [simp]:
  "opt_list None = []" "opt_list (Some a) = [a]"
  by (simp_all add: opt_list_def)

lemma last_opt_simps [simp]:
  "last_opt [] = None" "last_opt (xs @ [x]) = Some x" "last_opt (x # xs) = Some (last (x # xs))"
  by (simp_all add: last_opt_def)

lemma last_opt_opt_list [simp]: "last_opt (opt_list x) = x"
  by (cases x) simp_all

lemma distinct_adj_opt_list [simp]: "distinct_adj (opt_list x)"
  by (cases x) simp_all

lemma distinct_adj_chain:
  assumes "distinct_adj xs" and "distinct_adj (opt_list (last_opt xs) @ ys)"
  shows "distinct_adj (xs @ ys)" and "last_opt (xs @ ys) = last_opt (opt_list (last_opt xs) @ ys)"
proof -
  show "distinct_adj (xs @ ys)"
  proof (cases "xs = []")
    case True
    with assms show ?thesis by simp
  next
    case False
    with assms(2) have "distinct_adj (last xs # ys)" by (simp add: last_opt_def)
    then have "distinct_adj ys" "ys = [] \<or> last xs \<noteq> hd ys"
      by (auto simp: distinct_adj_Cons)
    with assms(1) show ?thesis by (auto simp: distinct_adj_append_iff)
  qed
  show "last_opt (xs @ ys) = last_opt (opt_list (last_opt xs) @ ys)"
    by (cases "xs = []"; cases "ys = []") (simp_all add: last_opt_def)
qed

lemma if_ex_cases: "\<exists>b. P x b \<Longrightarrow> \<exists>b. P y b \<Longrightarrow> \<exists>b. P (if c then x else y) b"
  by simp

lemma block_ext_same:
  assumes "assistantTexts s' = assistantTexts s" "lastBlockReplyText s' = lastBlockReplyText s"
    "blockReplies (emitted s') = blockReplies (emitted s)"
  shows "block_ext p s s' []"
  using assms by (simp add: block_ext_def)

lemma block_ext_trans:
  assumes "block_ext p s s' bs" "block_ext p s' s'' cs"
  shows "block_ext p s s'' (bs @ cs)"
proof -
  let ?xs = "opt_list (lastBlockReplyText s) @ bs"
  from assms have d1: "distinct_adj ?xs"
    and d2: "distinct_adj (opt_list (last_opt ?xs) @ cs)"
    by (simp_all add: block_ext_def)
  from distinct_adj_chain [OF d1 d2]
  have "distinct_adj (?xs @ cs)" "last_opt (?xs @ cs) = last_opt (opt_list (last_opt ?xs) @ cs)"
    by simp_all
  with assms show ?thesis by (simp add: block_ext_def split: if_splits)
qed

lemma stream_ext_same:
  assumes "lastStreamedAssistant s' = lastStreamedAssistant s"
    "streamedTexts (emitted s') = streamedTexts (emitted s)"
    "partialReplies (emitted s') = partialReplies (emitted s)"
  shows "stream_ext p s s' []"
  using assms by (simp add: stream_ext_def)

lemma stream_ext_trans:
  assumes "stream_ext p s s' bs" "stream_ext p s' s'' cs"
  shows "stream_ext p s s'' (bs @ cs)"
proof -
  let ?xs = "opt_list (lastStreamedAssistant s) @ bs"
  from assms have d1: "distinct_adj ?xs"
    and d2: "distinct_adj (opt_list (last_opt ?xs) @ cs)"
    by (simp_all add: stream_ext_def)
  from distinct_adj_chain [OF d1 d2]
  have "distinct_adj (?xs @ cs)" "last_opt (?xs @ cs) = last_opt (opt_list (last_opt ?xs) @ cs)"
    by simp_all
  with assms show ?thesis by (simp add: stream_ext_def)
qed

lemma emitBlockChunk_block_ext: "\<exists>bs. block_ext p s (emitBlockChunk p t s) bs"
proof -
  let ?chunk = "trimEnd (fst (strip_block (blockThinkingActive s) t))"
  show ?thesis
  proof (cases "?chunk = [] \<or> lastBlockReplyText s = Some ?chunk
      \<or> isMessagingToolDuplicate p ?chunk (messagingToolSentTexts s)")
    case True
    then have "block_ext p s (emitBlockChunk p t s) []"
      by (auto simp: block_ext_def emitBlockChunk_def stripBlock_eq Let_def)
    then show ?thesis ..
  next
    case False
    then have "block_ext p s (emitBlockChunk p t s) [?chunk]"
      by (cases "lastBlockReplyText s")
        (auto simp: block_ext_def emitBlockChunk_def stripBlock_eq Let_def split: prod.splits)
    then show ?thesis ..
  qed
qed

lemma emitBlockChunk_stream_ext: "stream_ext p s (emitBlockChunk p t s) []"
  by (rule stream_ext_same)
    (simp_all add: emitBlockChunk_def stripBlock_eq Let_def split: prod.splits)

lemma foldl_emit_block_ext:
  "\<exists>bs. block_ext p s (foldl (\<lambda>s' chunk. emitBlockChunk p chunk s') s cs) bs"
proof (induction cs arbitrary: s)
  case Nil
  have "block_ext p s s []" by (rule block_ext_same) simp_all
  then show ?case by auto
next
  case (Cons c cs)
  obtain bs where b: "block_ext p s (emitBlockChunk p c s) bs"
    using emitBlockChunk_block_ext by blast
  obtain bs' where b': "block_ext p (emitBlockChunk p c s)
      (foldl (\<lambda>s' chunk. emitBlockChunk p chunk s') (emitBlockChunk p c s) cs) bs'"
    using Cons.IH by blast
  from block_ext_trans [OF b b'] show ?case by auto
qed

lemma foldl_emit_stream_ext:
  "stream_ext p s (foldl (\<lambda>s' chunk. emitBlockChunk p chunk s') s cs) []"
proof (induction cs arbitrary: s)
  case Nil
  show ?case by (simp add: stream_ext_same)
next
  case (Cons c cs)
  from stream_ext_trans [OF emitBlockChunk_stream_ext Cons.IH]
  show ?case by simp
qed

lemma drainChunker_block_ext: "\<exists>bs. block_ext p s (drainChunker p force s) bs"
proof (cases "blockChunker s")
  case None
  have "block_ext p s s []" by (rule block_ext_same) simp_all
  with None show ?thesis by (auto simp: drainChunker_def)
next
  case (Some c)
  obtain chunks c' where d: "chunker_drain (blockReplyChunking p) force c = (chunks, c')"
    by (cases "chunker_drain (blockReplyChunking p) force c")
  have a: "block_ext p s (s\<lparr>blockChunker := Some c'\<rparr>) []"
    by (rule block_ext_same) simp_all
  obtain bs where b: "block_ext p (s\<lparr>blockChunker := Some c'\<rparr>)
      (foldl (\<lambda>s' chunk. emitBlockChunk p chunk s') (s\<lparr>blockChunker := Some c'\<rparr>) chunks) bs"
    using foldl_emit_block_ext by blast
  from block_ext_trans [OF a b] Some d show ?thesis by (auto simp: drainChunker_def)
qed

lemma drainChunker_stream_ext: "stream_ext p s (drainChunker p force s) []"
proof (cases "blockChunker s")
  case None
  then show ?thesis by (simp add: drainChunker_def stream_ext_same)
next
  case (Some c)
  obtain chunks c' where d: "chunker_drain (blockReplyChunking p) force c = (chunks, c')"
    by (cases "chunker_drain (blockReplyChunking p) force c")
  have a: "stream_ext p s (s\<lparr>blockChunker := Some c'\<rparr>) []"
    by (rule stream_ext_same) simp_all
  from stream_ext_trans [OF a foldl_emit_stream_ext] Some d
  show ?thesis by (simp add: drainChunker_def)
qed

lemma resetChunker_ext:
  "block_ext p s (resetChunker q s) []" "stream_ext p s (resetChunker q s) []"
  by (simp_all add: block_ext_same stream_ext_same resetChunker_def)

lemma flushBlockReplies_block_ext: "\<exists>bs. block_ext p s (flushBlockReplies p s) bs"
proof -
  obtain bs where a: "block_ext p s (drainChunker p True s) bs"
    using drainChunker_block_ext by blast
  from block_ext_trans [OF a resetChunker_ext(1)]
  have 1: "\<exists>bs. block_ext p s (resetChunker p (drainChunker p True s)) bs" by blast
  obtain cs where b: "block_ext p s (emitBlockChunk p (blockBuffer s) s) cs"
    using emitBlockChunk_block_ext by blast
  have "block_ext p (emitBlockChunk p (blockBuffer s) s)
      ((emitBlockChunk p (blockBuffer s) s)\<lparr>blockBuffer := []\<rparr>) []"
    by (rule block_ext_same) simp_all
  from block_ext_trans [OF b this]
  have 2: "\<exists>bs. block_ext p s ((emitBlockChunk p (blockBuffer s) s)\<lparr>blockBuffer := []\<rparr>) bs"
    by blast
  have 3: "\<exists>bs. block_ext p s s bs" using block_ext_same [of s s p] by blast
  from 1 2 3 show ?thesis by (simp add: flushBlockReplies_def)
qed

lemma flushBlockReplies_stream_ext: "stream_ext p s (flushBlockReplies p s) []"
proof -
  from stream_ext_trans [OF drainChunker_stream_ext resetChunker_ext(2)]
  have 1: "stream_ext p s (resetChunker p (drainChunker p True s)) []" by simp
  have "stream_ext p (emitBlockChunk p (blockBuffer s) s)
      ((emitBlockChunk p (blockBuffer s) s)\<lparr>blockBuffer := []\<rparr>) []"
    by (rule stream_ext_same) simp_all
  from stream_ext_trans [OF emitBlockChunk_stream_ext this]
  have 2: "stream_ext p s ((emitBlockChunk p (blockBuffer s) s)\<lparr>blockBuffer := []\<rparr>) []"
    by simp
  from 1 2 show ?thesis by (simp add: flushBlockReplies_def stream_ext_same)
qed

lemma appendChunk_ext:
  "block_ext p s (appendChunk p c s) []" "stream_ext p s (appendChunk p c s) []"
  by (simp_all add: block_ext_same stream_ext_same)

lemma emitReasoningStream_streamed [simp]:
  "streamedTexts (emitted (emitReasoningStream p t s)) = streamedTexts (emitted s)"
  by (simp add: emitReasoningStream_def Let_def)

lemma streamPartial_block_ext: "block_ext p s (streamPartial p s) []"
  by (rule block_ext_same) simp_all

lemma streamPartial_stream_ext: "\<exists>ps. stream_ext p s (streamPartial p s) ps"
proof -
  let ?s2 = "if streamReasoning p
             then emitReasoningStream p (extractThinkingFromStream (deltaBuffer s)) s else s"
  let ?next = "cleanedNext p (deltaBuffer ?s2)"
  have l: "lastStreamedAssistant ?s2 = lastStreamedAssistant s"
    and e: "streamedTexts (emitted ?s2) = streamedTexts (emitted s)"
    and q: "partialReplies (emitted ?s2) = partialReplies (emitted s)"
    by simp_all
  show ?thesis
  proof (cases "?next \<noteq> [] \<and> lastStreamedAssistant ?s2 \<noteq> Some ?next")
    case True
    have "stream_ext p s (streamPartial p s) [?next]"
      unfolding stream_ext_def streamPartial_def Let_def
      using True l e q
      by (cases "lastStreamedAssistant s") (simp_all add: last_opt_def del: emitReasoningStream_frame)
    then show ?thesis ..
  next
    case False
    have "stream_ext p s (streamPartial p s) []"
      unfolding stream_ext_def streamPartial_def Let_def
      using False l e q by (auto simp del: emitReasoningStream_frame)
    then show ?thesis ..
  qed
qed

lemma handle_message_update_block_ext:
  "\<exists>bs. block_ext p s (handle_message_update p msg t delta c s) bs"
proof -
  let ?s1 = "appendChunk p (resolveChunk t delta c (deltaBuffer s)) s"
  let ?s3 = "streamPartial p ?s1"
  let ?s4 = "if onBlockReply p \<and> blockChunker ?s3 \<noteq> None \<and> blockReplyBreak p = break_text_end
             then drainChunker p False ?s3 else ?s3"
  have a: "block_ext p s ?s3 []"
    using block_ext_trans [OF appendChunk_ext(1) streamPartial_block_ext] by simp
  have "\<exists>bs. block_ext p ?s3 ?s3 bs" using block_ext_same [of ?s3 ?s3 p] by blast
  then have "\<exists>bs. block_ext p ?s3 ?s4 bs"
    using drainChunker_block_ext [of p ?s3 False] by (rule_tac if_ex_cases) 
  then obtain bs where b: "block_ext p ?s3 ?s4 bs" ..
  obtain cs where c: "block_ext p ?s4 (flushBlockReplies p ?s4) cs"
    using flushBlockReplies_block_ext by blast
  have 1: "block_ext p s ?s4 ([] @ bs)" by (rule block_ext_trans [OF a b])
  have 2: "block_ext p s (flushBlockReplies p ?s4) (([] @ bs) @ cs)"
    by (rule block_ext_trans [OF 1 c])
  have 0: "block_ext p s s []" by (rule block_ext_same) simp_all
  from 0 1 2 show ?thesis
    unfolding handle_message_update_def Let_def by (auto simp del: append_Nil)
qed

lemma handle_message_update_stream_ext:
  "\<exists>ps. stream_ext p s (handle_message_update p msg t delta c s) ps"
proof -
  let ?s1 = "appendChunk p (resolveChunk t delta c (deltaBuffer s)) s"
  let ?s3 = "streamPartial p ?s1"
  let ?s4 = "if onBlockReply p \<and> blockChunker ?s3 \<noteq> None \<and> blockReplyBreak p = break_text_end
             then drainChunker p False ?s3 else ?s3"
  obtain ps where a0: "stream_ext p ?s1 ?s3 ps" using streamPartial_stream_ext by blast
  have a: "stream_ext p s ?s3 ([] @ ps)" by (rule stream_ext_trans [OF appendChunk_ext(2) a0])
  have b: "stream_ext p ?s3 ?s4 []"
    using drainChunker_stream_ext [of p ?s3 False] stream_ext_same [of ?s3 ?s3 p]
    by (simp del: streamPartial_frame)
  have 1: "stream_ext p s ?s4 (([] @ ps) @ [])" by (rule stream_ext_trans [OF a b])
  have 2: "stream_ext p s (flushBlockReplies p ?s4) ((([] @ ps) @ []) @ [])"
    by (rule stream_ext_trans [OF 1 flushBlockReplies_stream_ext])
  have 0: "stream_ext p s s []" by (rule stream_ext_same) simp_all
  from 0 1 2 show ?thesis
    unfolding handle_message_update_def Let_def by (auto simp del: append_Nil append_Nil2)
qed

lemma tool_handlers_emitted [simp]:
  "blockReplies (emitted (handle_tool_execution_start p e s)) = blockReplies (emitted s)"
  "streamedTexts (emitted (handle_tool_execution_start p e s)) = streamedTexts (emitted s)"
  "partialReplies (emitted (handle_tool_execution_start p e s)) = partialReplies (emitted s)"
  "lastStreamedAssistant (handle_tool_execution_start p e s) = lastStreamedAssistant s"
  "lastStreamedAssistant (handle_tool_execution_end name callId isError s) = lastStreamedAssistant s"
  by (simp_all add: handle_tool_execution_start_def handle_tool_execution_end_def Let_def
      split: js_val.splits option.splits)

lemma step_ext:
  assumes "streaming_event e"
  shows "\<exists>bs. block_ext p s (step p e s) bs" and "\<exists>ps. stream_ext p s (step p e s) ps"
proof -
  have b0: "\<exists>bs. block_ext p s s bs" using block_ext_same [of s s p] by blast
  have s0: "\<exists>ps. stream_ext p s s ps" using stream_ext_same [of s s p] by blast
  have bt: "\<exists>bs. block_ext p s (handle_tool_execution_start p ts s) bs" for ts
    using block_ext_same [of "handle_tool_execution_start p ts s" s p] by auto
  have st: "\<exists>ps. stream_ext p s (handle_tool_execution_start p ts s) ps" for ts
    using stream_ext_same [of "handle_tool_execution_start p ts s" s p] by auto
  have be: "\<exists>bs. block_ext p s (handle_tool_execution_end n i err s) bs" for n i err
    using block_ext_same [of "handle_tool_execution_end n i err s" s p] by auto
  have se: "\<exists>ps. stream_ext p s (handle_tool_execution_end n i err s) ps" for n i err
    using stream_ext_same [of "handle_tool_execution_end n i err s" s p] by auto
  show "\<exists>bs. block_ext p s (step p e s) bs"
    using assms b0 bt be handle_message_update_block_ext by (cases e) simp_all
  show "\<exists>ps. stream_ext p s (step p e s) ps"
    using assms s0 st se handle_message_update_stream_ext by (cases e) simp_all
qed

lemma run_ext:
  assumes "\<forall>e \<in> set evts. streaming_event e"
  shows "\<exists>bs. block_ext p s (run p evts s) bs" and "\<exists>ps. stream_ext p s (run p evts s) ps"
proof -
  have "(\<exists>bs. block_ext p s (run p evts s) bs) \<and> (\<exists>ps. stream_ext p s (run p evts s) ps)"
    using assms
  proof (induction evts arbitrary: s)
    case Nil
    then show ?case
      using block_ext_same [of s s p] stream_ext_same [of s s p] by (auto simp: run_def)
  next
    case (Cons e evts)
    then have ev: "streaming_event e" and rest: "\<forall>e \<in> set evts. streaming_event e" by simp_all
    obtain bs ps where b: "block_ext p s (step p e s) bs" and q: "stream_ext p s (step p e s) ps"
      using step_ext [OF ev] by blast
    obtain bs' ps' where b': "block_ext p (step p e s) (run p evts (step p e s)) bs'"
      and q': "stream_ext p (step p e s) (run p evts (step p e s)) ps'"
      using Cons.IH [OF rest] by blast
    have r: "run p (e # evts) s = run p evts (step p e s)" by (simp add: run_def)
    from block_ext_trans [OF b b'] stream_ext_trans [OF q q'] show ?case
      unfolding r by blast
  qed
  then show "\<exists>bs. block_ext p s (run p evts s) bs" "\<exists>ps. stream_ext p s (run p evts s) ps"
    by blast+
qed

lemma block_ext_reply_ext:
  "block_ext p s s' bs \<Longrightarrow> reply_ext p s s' bs"
  by (simp add: block_ext_def reply_ext_def)

lemma reply_ext_same:
  assumes "lastBlockReplyText s' = lastBlockReplyText s"
    "blockReplies (emitted s') = blockReplies (emitted s)"
  shows "reply_ext p s s' []"
  using assms by (simp add: reply_ext_def)

lemma reply_ext_trans:
  assumes "reply_ext p s s' bs" "reply_ext p s' s'' cs"
  shows "reply_ext p s s'' (bs @ cs)"
proof -
  let ?xs = "opt_list (lastBlockReplyText s) @ bs"
  from assms have d1: "distinct_adj ?xs"
    and d2: "distinct_adj (opt_list (last_opt ?xs) @ cs)"
    by (simp_all add: reply_ext_def)
  from distinct_adj_chain [OF d1 d2]
  have "distinct_adj (?xs @ cs)" "last_opt (?xs @ cs) = last_opt (opt_list (last_opt ?xs) @ cs)"
    by simp_all
  with assms show ?thesis by (simp add: reply_ext_def split: if_splits)
qed

lemma reply_ext_frame:
  assumes "reply_ext p s s' bs" "lastBlockReplyText s'' = lastBlockReplyText s'"
    "blockReplies (emitted s'') = blockReplies (emitted s')"
  shows "reply_ext p s s'' bs"
  using reply_ext_trans [OF assms(1) reply_ext_same [OF assms(2,3)]] by simp

lemma emitFinalBlockReply_reply_ext: "\<exists>bs. reply_ext p s (emitFinalBlockReply p T s) bs"
proof (cases "(blockReplyBreak p = break_message_end
          \<or> (case blockChunker s of
                Some c \<Rightarrow> chunker_hasBuffered (blockReplyChunking p) c
              | None \<Rightarrow> length (blockBuffer s) > 0))
         \<and> T \<noteq> [] \<and> onBlockReply p")
  case False
  have "emitFinalBlockReply p T s = s"
    unfolding emitFinalBlockReply_def using False by (rule if_not_P)
  then have "reply_ext p s (emitFinalBlockReply p T s) []" by (simp add: reply_ext_same)
  then show ?thesis ..
next
  case True
  show ?thesis
  proof (cases "hasBuffered p s")
    case hb: True
    obtain bs where "block_ext p s (drainChunker p True s) bs"
      using drainChunker_block_ext by blast
    then have "reply_ext p s (drainChunker p True s) bs" by (rule block_ext_reply_ext)
    then have "reply_ext p s (resetChunker p (drainChunker p True s)) bs"
      by (rule reply_ext_frame) simp_all
    then have "reply_ext p s (emitFinalBlockReply p T s) bs"
      using True hb by (simp add: emitFinalBlockReply_def)
    then show ?thesis ..
  next
    case nb: False
    show ?thesis
    proof (cases "lastBlockReplyText s = Some T
        \<or> isMessagingToolDuplicate p T (messagingToolSentTexts s)")
      case dup: True
      then have "emitFinalBlockReply p T s = s"
        using True nb by (auto simp: emitFinalBlockReply_def)
      then have "reply_ext p s (emitFinalBlockReply p T s) []" by (simp add: reply_ext_same)
      then show ?thesis ..
    next
      case acc: False
      then have "reply_ext p s (emitFinalBlockReply p T s) [T]"
        using True nb
        by (cases "lastBlockReplyText s")
          (auto simp: reply_ext_def emitFinalBlockReply_def Let_def split: prod.splits)
      then show ?thesis ..
    qed
  qed
qed

lemma handle_message_end_reply_ext: "\<exists>bs. reply_ext p s (handle_message_end p msg s) bs"
proof (cases "role msg = ''assistant''")
  case False
  then have "handle_message_end p msg s = s" by (simp add: handle_message_end_def)
  then have "reply_ext p s (handle_message_end p msg s) []" by (simp add: reply_ext_same)
  then show ?thesis ..
next
  case True
  obtain T b1 b2 b3 f r where d: "handle_message_end p msg s =
      endOfMessageReset p
        (let s3 = (if b1 then emitReasoningReply f (recordFinalText p T s)
                   else recordFinalText p T s);
             s4 = emitFinalBlockReply p T s3;
             s5 = (if b2 then emitReasoningReply f s4 else s4)
         in if b3 then emitReasoningStream p r s5 else s5)"
    using handle_message_end_decomp [OF True] by blast
  let ?s3 = "if b1 then emitReasoningReply f (recordFinalText p T s) else recordFinalText p T s"
  have e3: "blockReplies (emitted ?s3) = blockReplies (emitted s)"
    by (simp add: emitReasoningReply_def)
  have "reply_ext p s ?s3 []"
    by (rule reply_ext_same) (simp_all add: e3)
  moreover obtain bs where "reply_ext p ?s3 (emitFinalBlockReply p T ?s3) bs"
    using emitFinalBlockReply_reply_ext by blast
  ultimately have r4: "reply_ext p s (emitFinalBlockReply p T ?s3) bs"
    using reply_ext_trans by fastforce
  let ?s5 = "if b2 then emitReasoningReply f (emitFinalBlockReply p T ?s3)
             else emitFinalBlockReply p T ?s3"
  have r5: "reply_ext p s ?s5 bs"
    by (rule reply_ext_frame [OF r4]) (simp_all add: emitReasoningReply_def)
  let ?s6 = "if b3 then emitReasoningStream p r ?s5 else ?s5"
  have r6: "reply_ext p s ?s6 bs"
    by (rule reply_ext_frame [OF r5]) simp_all
  have "reply_ext p s (endOfMessageReset p ?s6) bs"
    by (rule reply_ext_frame [OF r6]) simp_all
  then have "reply_ext p s (handle_message_end p msg s) bs"
    unfolding d Let_def .
  then show ?thesis ..
qed

lemma compaction_wait_frame [simp]:
  "lastBlockReplyText (maybeResolveCompactionWait s) = lastBlockReplyText s"
  "lastStreamedAssistant (maybeResolveCompactionWait s) = lastStreamedAssistant s"
  "blockReplies (emitted (maybeResolveCompactionWait s)) = blockReplies (emitted s)"
  "partialReplies (emitted (maybeResolveCompactionWait s)) = partialReplies (emitted s)"
  "streamedTexts (emitted (maybeResolveCompactionWait s)) = streamedTexts (emitted s)"
  "lastBlockReplyText (resolveCompactionRetry s) = lastBlockReplyText s"
  "lastStreamedAssistant (resolveCompactionRetry s) = lastStreamedAssistant s"
  "blockReplies (emitted (resolveCompactionRetry s)) = blockReplies (emitted s)"
  "partialReplies (emitted (resolveCompactionRetry s)) = partialReplies (emitted s)"
  "streamedTexts (emitted (resolveCompactionRetry s)) = streamedTexts (emitted s)"
  "lastBlockReplyText (ensureCompactionPromise s) = lastBlockReplyText s"
  "lastStreamedAssistant (ensureCompactionPromise s) = lastStreamedAssistant s"
  "emitted (ensureCompactionPromise s) = emitted s"
  by (simp_all add: maybeResolveCompactionWait_def resolveCompactionRetry_def
      ensureCompactionPromise_def Let_def)

lemma handle_agent_end_ext:
  "\<exists>bs. reply_ext p s (handle_agent_end p s) bs"
  "stream_ext p s (handle_agent_end p s) []"
proof -
  let ?s1 = "if onBlockReply p then flushBlockReplies p s else s"
  obtain bs where b: "reply_ext p s ?s1 bs"
  proof (cases "onBlockReply p")
    case True
    obtain bs where "block_ext p s (flushBlockReplies p s) bs"
      using flushBlockReplies_block_ext by blast
    then have "reply_ext p s ?s1 bs" using True by (simp add: block_ext_reply_ext)
    then show ?thesis using that by blast
  next
    case False
    then have "reply_ext p s ?s1 []" by (simp add: reply_ext_same)
    then show ?thesis using that by blast
  qed
  have "reply_ext p s (handle_agent_end p s) bs"
    by (rule reply_ext_frame [OF b]) (simp_all add: handle_agent_end_def Let_def)
  then show "\<exists>bs. reply_ext p s (handle_agent_end p s) bs" ..
  have q: "stream_ext p s ?s1 []"
    using flushBlockReplies_stream_ext [of p s] stream_ext_same [of s s p] by simp
  have "stream_ext p ?s1 (handle_agent_end p s) []"
    by (rule stream_ext_same) (simp_all add: handle_agent_end_def Let_def)
  from stream_ext_trans [OF q this] show "stream_ext p s (handle_agent_end p s) []" by simp
qed

lemma step_reply_ext:
  assumes "\<not> clears_last_block e"
  shows "\<exists>bs. reply_ext p s (step p e s) bs"
proof (cases "streaming_event e")
  case True
  then show ?thesis using step_ext(1) block_ext_reply_ext by blast
next
  case False
  have same: "\<exists>bs. reply_ext p s s' bs"
    if "lastBlockReplyText s' = lastBlockReplyText s"
      "blockReplies (emitted s') = blockReplies (emitted s)" for s'
    using reply_ext_same [OF that] by blast
  from False assms show ?thesis
  proof (cases e)
    case (message_start msg)
    with assms show ?thesis by (intro same) (simp_all add: handle_message_start_def)
  next
    case (message_end msg)
    then show ?thesis using handle_message_end_reply_ext by simp
  next
    case auto_compaction_start
    then show ?thesis by (intro same) (simp_all add: handle_auto_compaction_start_def)
  next
    case (auto_compaction_end w)
    with assms show ?thesis by (intro same) (simp_all add: handle_auto_compaction_end_def Let_def)
  next
    case agent_end
    then show ?thesis using handle_agent_end_ext(1) by simp
  qed simp_all
qed

lemma step_stream_ext:
  assumes "\<not> clears_buffers e"
  shows "\<exists>ps. stream_ext p s (step p e s) ps"
proof (cases "streaming_event e")
  case True
  then show ?thesis using step_ext(2) by blast
next
  case False
  have same: "\<exists>ps. stream_ext p s s' ps"
    if "lastStreamedAssistant s' = lastStreamedAssistant s"
      "streamedTexts (emitted s') = streamedTexts (emitted s)"
      "partialReplies (emitted s') = partialReplies (emitted s)" for s'
    using stream_ext_same [OF that] by blast
  from False assms show ?thesis
  proof (cases e)
    case (message_start msg)
    with assms show ?thesis by (intro same) (simp_all add: handle_message_start_def)
  next
    case (message_end msg)
    with assms show ?thesis by (intro same) (simp_all add: handle_message_end_def)
  next
    case auto_compaction_start
    then show ?thesis by (intro same) (simp_all add: handle_auto_compaction_start_def)
  next
    case (auto_compaction_end w)
    with assms show ?thesis by (intro same) (simp_all add: handle_auto_compaction_end_def Let_def)
  next
    case agent_end
    then show ?thesis using handle_agent_end_ext(2) by auto
  qed simp_all
qed

lemma run_reply_ext:
  assumes "\<forall>e \<in> set evts. \<not> clears_last_block e"
  shows "\<exists>bs. reply_ext p s (run p evts s) bs"
  using assms
proof (induction evts arbitrary: s)
  case Nil
  then show ?case using reply_ext_same [of s s p] by (auto simp: run_def)
next
  case (Cons e evts)
  then have ev: "\<not> clears_last_block e" and rest: "\<forall>e \<in> set evts. \<not> clears_last_block e"
    by simp_all
  obtain bs where b: "reply_ext p s (step p e s) bs" using step_reply_ext [OF ev] by blast
  obtain bs' where b': "reply_ext p (step p e s) (run p evts (step p e s)) bs'"
    using Cons.IH [OF rest] by blast
  have r: "run p (e # evts) s = run p evts (step p e s)" by (simp add: run_def)
  from reply_ext_trans [OF b b'] show ?case unfolding r by blast
qed

lemma run_stream_ext:
  assumes "\<forall>e \<in> set evts. \<not> clears_buffers e"
  shows "\<exists>ps. stream_ext p s (run p evts s) ps"
  using assms
proof (induction evts arbitrary: s)
  case Nil
  then show ?case using stream_ext_same [of s s p] by (auto simp: run_def)
next
  case (Cons e evts)
  then have ev: "\<not> clears_buffers e" and rest: "\<forall>e \<in> set evts. \<not> clears_buffers e"
    by simp_all
  obtain ps where q: "stream_ext p s (step p e s) ps" using step_stream_ext [OF ev] by blast
  obtain ps' where q': "stream_ext p (step p e s) (run p evts (step p e s)) ps'"
    using Cons.IH [OF rest] by blast
  have r: "run p (e # evts) s = run p evts (step p e s)" by (simp add: run_def)
  from stream_ext_trans [OF q q'] show ?case unfolding r by blast
qed

lemma distinct_adj_suffix:
  "distinct_adj (xs @ ys) \<Longrightarrow> distinct_adj ys"
  by (auto simp: distinct_adj_append_iff)


lemma ABA_facts:
  "assistantTexts (run plain_params (message_start (assistant_msg []) # blocks_ABA) (subscribe None))
     = [''A'', ''B'', ''A'']"
  "blockReplies (emitted (run plain_params (message_start (assistant_msg []) # blocks_ABA) (subscribe None)))
     = [''A'', ''B'', ''A'']"
  "partialReplies (emitted (run plain_params (message_start (assistant_msg []) # deltas_open_marker) (subscribe None)))
     = [''A'', ''A<'', ''A'']"
  "assistantTexts (subscribe None :: unit subscription) = []"
  "\<forall>e \<in> set blocks_ABA. streaming_event e"
  "role (assistant_msg []) = ''assistant''"
  by code_simp+

lemma two_block_facts:
  "\<forall>e \<in> set (tl two_block_message). \<not> clears_last_block e"
  "onBlockReply plain_params"
  "blockReplies (emitted (step plain_params (message_start (assistant_msg [])) (subscribe None))) = []"
  by code_simp+

lemma plain_params_media:
  "splitMediaFromOutput plain_params = (\<lambda>t. (t, []))"
  by (simp add: plain_params_def params_with_def)



section \<open>Late text_end after message_end\<close>

lemma run_simps [simp]:
  "run p [] s = s"
  "run p (e # evts) s = run p evts (step p e s)"
  "run p (evts @ evts') s = run p evts' (run p evts s)"
  by (simp_all add: run_def)

lemma block_ext_keeps_last:
  assumes "block_ext p s s' bs" "lastBlockReplyText s \<noteq> None"
  shows "lastBlockReplyText s' \<noteq> None"
  using assms by (cases "lastBlockReplyText s") (auto simp: block_ext_def last_opt_def)

lemma emitFinalBlockReply_keeps_last:
  assumes "lastBlockReplyText s \<noteq> None"
  shows "lastBlockReplyText (emitFinalBlockReply p text s) \<noteq> None"
proof -
  obtain bs where "block_ext p s (drainChunker p True s) bs"
    using drainChunker_block_ext by blast
  from block_ext_keeps_last [OF this assms]
  have "lastBlockReplyText (resetChunker p (drainChunker p True s)) \<noteq> None" by simp
  with assms show ?thesis
    by (simp add: emitFinalBlockReply_def Let_def split: prod.splits)
qed

lemma endOfMessageReset_clears [simp]:
  "deltaBuffer (endOfMessageReset p s) = []"
  "blockBuffer (endOfMessageReset p s) = []"
  "blockThinkingActive (endOfMessageReset p s) = False"
  "blockChunker (endOfMessageReset p s) = map_option (chunker_reset (blockReplyChunking p)) (blockChunker s)"
  by (simp_all add: endOfMessageReset_def resetChunker_def)

lemma message_end_clears:
  assumes "role msg = ''assistant''"
  shows "deltaBuffer (handle_message_end p msg s) = []"
    and "blockBuffer (handle_message_end p msg s) = []"
    and "\<not> blockThinkingActive (handle_message_end p msg s)"
    and "lastBlockReplyText s \<noteq> None \<Longrightarrow> lastBlockReplyText (handle_message_end p msg s) \<noteq> None"
proof -
  obtain T b1 b2 b3 f r where d: "handle_message_end p msg s =
      endOfMessageReset p
        (let s3 = (if b1 then emitReasoningReply f (recordFinalText p T s)
                   else recordFinalText p T s);
             s4 = emitFinalBlockReply p T s3;
             s5 = (if b2 then emitReasoningReply f s4 else s4)
         in if b3 then emitReasoningStream p r s5 else s5)"
    using handle_message_end_decomp [OF assms] by blast
  show "deltaBuffer (handle_message_end p msg s) = []"
    and "blockBuffer (handle_message_end p msg s) = []"
    and "\<not> blockThinkingActive (handle_message_end p msg s)"
    unfolding d by simp_all
  assume l: "lastBlockReplyText s \<noteq> None"
  let ?s3 = "if b1 then emitReasoningReply f (recordFinalText p T s) else recordFinalText p T s"
  have "lastBlockReplyText ?s3 \<noteq> None" using l by simp
  from emitFinalBlockReply_keeps_last [OF this]
  show "lastBlockReplyText (handle_message_end p msg s) \<noteq> None"
    unfolding d Let_def by simp
qed

lemma message_start_clears:
  assumes "role m0 = ''assistant''"
  shows "deltaBuffer (handle_message_start p m0 s) = []"
    and "blockBuffer (handle_message_start p m0 s) = []"
    and "lastBlockReplyText (handle_message_start p m0 s) = None"
    and "\<not> blockThinkingActive (handle_message_start p m0 s)"
    and "blockChunker s = None \<Longrightarrow> blockChunker (handle_message_start p m0 s) = None"
  using assms by (simp_all add: handle_message_start_def resetChunker_def)

lemma appendChunk_no_chunker:
  assumes "blockChunker s = None"
  shows "blockBuffer (appendChunk p c s) = blockBuffer s @ c"
    and "blockChunker (appendChunk p c s) = None"
  using assms by (simp_all add: appendChunk_def Let_def)

lemma flushBlockReplies_no_chunker:
  assumes "blockChunker s = None"
  shows "flushBlockReplies p s =
           (if blockBuffer s \<noteq> [] then (emitBlockChunk p (blockBuffer s) s)\<lparr>blockBuffer := []\<rparr> else s)"
  using assms by (simp add: flushBlockReplies_def hasBuffered_def)

lemma message_update_no_chunker:
  assumes "blockChunker s = None" "t = text_delta \<or> t = text_end"
  shows "handle_message_update p (assistant_msg m) t d c s =
           (if t = text_end \<and> blockReplyBreak p = break_text_end
            then flushBlockReplies p (streamPartial p (appendChunk p (resolveChunk t d c (deltaBuffer s)) s))
            else streamPartial p (appendChunk p (resolveChunk t d c (deltaBuffer s)) s))"
  using assms
  by (auto simp: handle_message_update_def assistant_msg_def Let_def appendChunk_no_chunker)

lemma deltas_no_chunker:
  assumes "blockChunker s = None"
  shows "blockChunker (run p (map delta_event ds) s) = None
     \<and> deltaBuffer (run p (map delta_event ds) s) = deltaBuffer s @ concat ds
     \<and> blockBuffer (run p (map delta_event ds) s) = blockBuffer s @ concat ds
     \<and> blockThinkingActive (run p (map delta_event ds) s) = blockThinkingActive s"
  using assms
proof (induction ds arbitrary: s)
  case Nil
  then show ?case by simp
next
  case (Cons d ds)
  let ?s' = "step p (delta_event d) s"
  have e: "?s' = streamPartial p (appendChunk p d s)"
    using Cons.prems
    by (simp add: delta_event_def message_update_no_chunker resolveChunk_def)
  have n: "blockChunker ?s' = None" "deltaBuffer ?s' = deltaBuffer s @ d"
    "blockBuffer ?s' = blockBuffer s @ d" "blockThinkingActive ?s' = blockThinkingActive s"
    unfolding e using Cons.prems by (simp_all add: appendChunk_no_chunker)
  from Cons.IH [OF n(1)] n show ?case by simp
qed

lemma emitFinalBlockReply_no_chunker:
  fixes s :: "'c subscription"
  assumes "blockChunker s = None"
  shows "blockChunker (emitFinalBlockReply p T s) = None"
    and "blockBuffer s = [] \<Longrightarrow> blockReplyBreak p = break_text_end \<Longrightarrow>
           emitFinalBlockReply p T s = s"
  using assms
  by (simp_all add: emitFinalBlockReply_def hasBuffered_def Let_def split: prod.splits)

lemma message_end_no_chunker:
  fixes s :: "'c subscription"
  assumes "blockChunker s = None" "role msg = ''assistant''"
  shows "blockChunker (handle_message_end p msg s) = None"
    and "blockBuffer s = [] \<Longrightarrow> blockReplyBreak p = break_text_end \<Longrightarrow>
           lastBlockReplyText (handle_message_end p msg s) = lastBlockReplyText s"
proof -
  obtain T b1 b2 b3 f r where d: "handle_message_end p msg s =
      endOfMessageReset p
        (let s3 = (if b1 then emitReasoningReply f (recordFinalText p T s)
                   else recordFinalText p T s);
             s4 = emitFinalBlockReply p T s3;
             s5 = (if b2 then emitReasoningReply f s4 else s4)
         in if b3 then emitReasoningStream p r s5 else s5)"
    using handle_message_end_decomp [OF assms(2)] by blast
  let ?s3 = "if b1 then emitReasoningReply f (recordFinalText p T s) else recordFinalText p T s"
  have s3: "blockChunker ?s3 = None" "blockBuffer ?s3 = blockBuffer s"
    "lastBlockReplyText ?s3 = lastBlockReplyText s"
    using assms(1) by simp_all
  have g: "blockChunker (emitFinalBlockReply p T ?s3) = None"
    by (rule emitFinalBlockReply_no_chunker(1) [OF s3(1)])
  show "blockChunker (handle_message_end p msg s) = None"
    unfolding d Let_def using g by simp
  assume e: "blockBuffer s = []" and br: "blockReplyBreak p = break_text_end"
  have "blockBuffer ?s3 = []" using s3(2) e by simp
  from emitFinalBlockReply_no_chunker(2) [OF s3(1) this br]
  have f': "emitFinalBlockReply p T ?s3 = ?s3" .
  show "lastBlockReplyText (handle_message_end p msg s) = lastBlockReplyText s"
    unfolding d Let_def f' by simp
qed

lemma emitBlockChunk_again:
  assumes "\<not> blockThinkingActive v" "\<not> blockThinkingActive y"
    and "lastBlockReplyText y = lastBlockReplyText (emitBlockChunk p c v)"
    and "messagingToolSentTexts y = messagingToolSentTexts v"
  shows "assistantTexts (emitBlockChunk p c y) = assistantTexts y"
    and "emitted (emitBlockChunk p c y) = emitted y"
    and "lastBlockReplyText (emitBlockChunk p c y) = lastBlockReplyText y"
proof -
  let ?chunk = "trimEnd (fst (strip_block False c))"
  have "?chunk = [] \<or> lastBlockReplyText y = Some ?chunk
      \<or> isMessagingToolDuplicate p ?chunk (messagingToolSentTexts y)"
    using assms
    by (auto simp: emitBlockChunk_def stripBlock_eq Let_def split: prod.splits if_splits)
  then show "assistantTexts (emitBlockChunk p c y) = assistantTexts y"
    and "emitted (emitBlockChunk p c y) = emitted y"
    and "lastBlockReplyText (emitBlockChunk p c y) = lastBlockReplyText y"
    using assms(2) by (auto simp: emitBlockChunk_def stripBlock_eq Let_def)
qed

lemma late_text_end_no_new_block:
  fixes p :: "'c params" and s :: "'c subscription" and m0 msg :: AgentMessage
    and ds :: "string list" and suffix :: string
  assumes nc: "blockChunker s = None" and r0: "role m0 = ''assistant''"
    and r1: "role msg = ''assistant''"
  defines "c \<equiv> concat ds @ suffix"
  defines "s1 \<equiv> run p (message_start m0 # map delta_event ds @ [text_end_event c, message_end msg]) s"
  shows "assistantTexts (step p (text_end_event c) s1) = assistantTexts s1"
    and "blockReplies (emitted (step p (text_end_event c) s1)) = blockReplies (emitted s1)"
    and "blockReplyBreak p = break_text_end \<Longrightarrow> blockBuffer (step p (text_end_event c) s1) = []"
    and "blockReplyBreak p = break_text_end \<Longrightarrow>
           lastBlockReplyText (step p (text_end_event c) s1) = lastBlockReplyText s1"
proof -
  define sa where "sa = handle_message_start p m0 s"
  define u where "u = run p (map delta_event ds) sa"
  define v where "v = streamPartial p (appendChunk p suffix u)"
  define w where "w = (if blockReplyBreak p = break_text_end then flushBlockReplies p v else v)"
  define x where "x = handle_message_end p msg w"
  define y where "y = streamPartial p (appendChunk p c x)"
  have t: "text_end = text_start \<or> text_end = text_end" by simp
  have sa: "blockChunker sa = None" "deltaBuffer sa = []" "blockBuffer sa = []"
    "\<not> blockThinkingActive sa"
    unfolding sa_def by (simp_all add: message_start_clears [OF r0] nc)
  have u: "blockChunker u = None" "deltaBuffer u = concat ds" "blockBuffer u = concat ds"
    "\<not> blockThinkingActive u"
    unfolding u_def using deltas_no_chunker [OF sa(1), of p ds] sa by simp_all
  have ch: "resolveChunk text_end [] c (concat ds) = suffix"
    using resolveChunk_char [OF t, of c "concat ds"] by (simp add: c_def)
  have v: "blockChunker v = None" "deltaBuffer v = c" "blockBuffer v = c"
    "\<not> blockThinkingActive v"
    unfolding v_def using u by (simp_all add: appendChunk_no_chunker c_def)
  have w_step: "step p (text_end_event c) u = w"
    unfolding w_def v_def using u(1,2) ch
    by (simp add: text_end_event_def message_update_no_chunker)
  have s1: "s1 = x"
    unfolding s1_def x_def sa_def u_def using w_step by (simp add: u_def sa_def)
  have w: "blockChunker w = None"
    unfolding w_def using v(1) by (simp add: flushBlockReplies_no_chunker)
  have x: "blockChunker x = None" "deltaBuffer x = []" "blockBuffer x = []"
    "\<not> blockThinkingActive x"
    unfolding x_def
    by (simp_all add: message_end_no_chunker(1) [OF w r1] message_end_clears [OF r1])
  have ch': "resolveChunk text_end [] c [] = c"
    using resolveChunk_char [OF t, of c "[]"] by simp
  have y: "blockChunker y = None" "blockBuffer y = c" "\<not> blockThinkingActive y"
    "assistantTexts y = assistantTexts x" "blockReplies (emitted y) = blockReplies (emitted x)"
    "lastBlockReplyText y = lastBlockReplyText x"
    "messagingToolSentTexts y = messagingToolSentTexts x"
    unfolding y_def using x by (simp_all add: appendChunk_no_chunker)
  have late: "step p (text_end_event c) x
      = (if blockReplyBreak p = break_text_end then flushBlockReplies p y else y)"
    unfolding y_def using x(1,2) ch'
    by (simp add: text_end_event_def message_update_no_chunker)
  have goal: "assistantTexts (step p (text_end_event c) x) = assistantTexts x
      \<and> blockReplies (emitted (step p (text_end_event c) x)) = blockReplies (emitted x)
      \<and> (blockReplyBreak p = break_text_end \<longrightarrow>
            blockBuffer (step p (text_end_event c) x) = []
            \<and> lastBlockReplyText (step p (text_end_event c) x) = lastBlockReplyText x)"
  proof (cases "blockReplyBreak p = break_text_end \<and> c \<noteq> []")
    case False
    then show ?thesis
      unfolding late using y by (auto simp: flushBlockReplies_no_chunker)
  next
    case True
    then have w_eq: "w = (emitBlockChunk p c v)\<lparr>blockBuffer := []\<rparr>"
      unfolding w_def using v by (simp add: flushBlockReplies_no_chunker)
    have wb: "blockBuffer w = []" unfolding w_eq by simp
    have lx: "lastBlockReplyText x = lastBlockReplyText (emitBlockChunk p c v)"
      unfolding x_def using message_end_no_chunker(2) [OF w r1 wb] True by (simp add: w_eq)
    have sx: "messagingToolSentTexts x = messagingToolSentTexts v"
      unfolding x_def by (simp add: w_eq)
    have ly: "lastBlockReplyText y = lastBlockReplyText (emitBlockChunk p c v)"
      and sy: "messagingToolSentTexts y = messagingToolSentTexts v"
      using y lx sx by simp_all
    from emitBlockChunk_again [OF v(4) y(3) ly sy]
    have "assistantTexts (emitBlockChunk p c y) = assistantTexts y"
      "emitted (emitBlockChunk p c y) = emitted y"
      "lastBlockReplyText (emitBlockChunk p c y) = lastBlockReplyText y" by simp_all
    then show ?thesis
      unfolding late using True y by (simp add: flushBlockReplies_no_chunker)
  qed
  from goal show "assistantTexts (step p (text_end_event c) s1) = assistantTexts s1"
    and "blockReplies (emitted (step p (text_end_event c) s1)) = blockReplies (emitted s1)"
    and "blockReplyBreak p = break_text_end \<Longrightarrow> blockBuffer (step p (text_end_event c) s1) = []"
    and "blockReplyBreak p = break_text_end \<Longrightarrow>
           lastBlockReplyText (step p (text_end_event c) s1) = lastBlockReplyText s1"
    unfolding s1 by simp_all
qed


lemma late_example_facts:
  "blockChunker (subscribe None :: unit subscription) = None"
  "role (assistant_msg ''Hello world'') = ''assistant''"
  "concat [''Hello'', '' world''] @ [] = ''Hello world''"
  "assistantTexts (run plain_params
      (message_start (assistant_msg []) # map delta_event [''Hello'', '' world'']
         @ [text_end_event ''Hello world'', message_end (assistant_msg ''Hello world'')])
      (subscribe None)) = [''Hello world'']"
  "blockReplies (emitted (run plain_params
      (message_start (assistant_msg []) # map delta_event [''Hello'', '' world'']
         @ [text_end_event ''Hello world'', message_end (assistant_msg ''Hello world'')])
      (subscribe None))) = [''Hello world'']"
  "blockReplyBreak plain_params = break_text_end"
  by code_simp+



section \<open>Waiting for a run to end\<close>

lemma resolve_frame [simp]:
  "EMBEDDED_RUN_WAITERS (resolve w v r) = EMBEDDED_RUN_WAITERS r"
  "ACTIVE_EMBEDDED_RUNS (resolve w v r) = ACTIVE_EMBEDDED_RUNS r"
  "timers (resolve w v r) = timers r"
  "nextWaiter (resolve w v r) = nextWaiter r"
  "waiters_of (resolve w v r) sid = waiters_of r sid"
  by (simp_all add: resolve_def waiters_of_def split: option.splits)

lemma waiters_of_updates [simp]:
  "waiters_of (r\<lparr>nextWaiter := n\<rparr>) sid = waiters_of r sid"
  "waiters_of (r\<lparr>timers := tm\<rparr>) sid = waiters_of r sid"
  "waiters_of (r\<lparr>resolved := rs\<rparr>) sid = waiters_of r sid"
  "waiters_of (r\<lparr>ACTIVE_EMBEDDED_RUNS := a\<rparr>) sid = waiters_of r sid"
  "waiters_of (r\<lparr>EMBEDDED_RUN_WAITERS := m\<rparr>) sid = (case m sid of Some ws \<Rightarrow> ws | None \<Rightarrow> [])"
  by (simp_all add: waiters_of_def)

lemma drop_waiter_waiters [simp]:
  "waiters_of (drop_waiter sid w r) sid = removeAll w (waiters_of r sid)"
  by (simp add: drop_waiter_def Let_def)

lemma resolve_resolved:
  "resolved r w = None \<Longrightarrow> resolved (resolve w v r) w = Some v"
  "resolved r w = Some b \<Longrightarrow> resolved (resolve w' v r) w = Some b"
  "w' \<noteq> w \<Longrightarrow> resolved (resolve w' v r) w = resolved r w"
  by (auto simp: resolve_def split: option.splits)

lemma notify_fold_resolved:
  assumes "\<forall>w \<in> set ws. resolved r w = None"
  shows "\<forall>w \<in> set ws.
     resolved (foldl (\<lambda>r' w. resolve w True (r'\<lparr>timers := (timers r')(w := None)\<rparr>)) r ws) w
       = Some True"
  using assms
proof (induction ws arbitrary: r rule: rev_induct)
  case Nil
  then show ?case by simp
next
  case (snoc x xs)
  let ?r = "foldl (\<lambda>r' w. resolve w True (r'\<lparr>timers := (timers r')(w := None)\<rparr>)) r xs"
  have "\<forall>w \<in> set xs. resolved r w = None" using snoc.prems by simp
  then have ih: "\<forall>w \<in> set xs. resolved ?r w = Some True" by (rule snoc.IH)
  show ?case
  proof
    fix w assume w: "w \<in> set (xs @ [x])"
    show "resolved (foldl (\<lambda>r' w. resolve w True (r'\<lparr>timers := (timers r')(w := None)\<rparr>)) r
        (xs @ [x])) w = Some True"
    proof (cases "w \<in> set xs")
      case True
      with ih have "resolved (?r\<lparr>timers := (timers ?r)(x := None)\<rparr>) w = Some True" by simp
      then show ?thesis by (simp add: resolve_resolved(2))
    next
      case False
      with w have wx: "w = x" by simp
      have "resolved (?r\<lparr>timers := (timers ?r)(x := None)\<rparr>) x = None
          \<or> resolved (?r\<lparr>timers := (timers ?r)(x := None)\<rparr>) x = Some True"
      proof (cases "x \<in> set xs")
        case True
        with ih show ?thesis by simp
      next
        case False
        have "resolved (foldl (\<lambda>r' w. resolve w True (r'\<lparr>timers := (timers r')(w := None)\<rparr>)) r' ys) x
            = resolved r' x" if "x \<notin> set ys" for ys r'
          using that by (induction ys arbitrary: r') (simp_all add: resolve_resolved(3))
        from this [OF False] snoc.prems show ?thesis by simp
      qed
      then show ?thesis
        unfolding wx by (auto simp: resolve_resolved(1,2))
    qed
  qed
qed

lemma notify_fold_waiters:
  "EMBEDDED_RUN_WAITERS (foldl (\<lambda>r' w. resolve w True (r'\<lparr>timers := (timers r')(w := None)\<rparr>)) r ws)
     = EMBEDDED_RUN_WAITERS r"
  by (induction ws arbitrary: r) simp_all

lemma deregister_resolves_all:
  assumes "ACTIVE_EMBEDDED_RUNS r sessionId = Some h"
    and "\<forall>w \<in> set (waiters_of r sessionId). resolved r w = None"
  shows "\<forall>w \<in> set (waiters_of r sessionId). resolved (deregister_run sessionId h r) w = Some True"
    and "waiters_of (deregister_run sessionId h r) sessionId = []"
proof -
  let ?r = "r\<lparr>ACTIVE_EMBEDDED_RUNS := (ACTIVE_EMBEDDED_RUNS r)(sessionId := None),
              EMBEDDED_RUN_WAITERS := (EMBEDDED_RUN_WAITERS r)(sessionId := None)\<rparr>"
  have p: "\<forall>w \<in> set (waiters_of r sessionId). resolved ?r w = None" using assms(2) by simp
  show "\<forall>w \<in> set (waiters_of r sessionId). resolved (deregister_run sessionId h r) w = Some True"
    using assms(1) notify_fold_resolved [OF p]
    by (auto simp: deregister_run_def notifyEmbeddedRunEnded_def waiters_of_def
        split: option.splits)
  show "waiters_of (deregister_run sessionId h r) sessionId = []"
    using assms(1)
    by (auto simp: deregister_run_def notifyEmbeddedRunEnded_def waiters_of_def
        notify_fold_waiters split: option.splits)
qed

lemma timer_delay_cases:
  "setTimeout_delay (math_max_100 (case timeout of None \<Rightarrow> JNum 15000 | Some t \<Rightarrow> t)) =
     (case timeout of
        None \<Rightarrow> 15000
      | Some (JNum t) \<Rightarrow> if max 100 t \<le> 2147483647 then max 100 t else 1
      | Some JNaN \<Rightarrow> 1
      | Some JPosInfinity \<Rightarrow> 1
      | Some JNegInfinity \<Rightarrow> 100)"
  by (auto simp: setTimeout_delay_def math_max_100_def split: option.splits js_number.splits)

text \<open>
  C9 (as amended).  In a registry whose waiters are pending:
  \<open>waitForEmbeddedPiRunEnd\<close> resolves true at once, registering nothing, when the
  session id is empty or no run is registered for it.  For a non-empty id with a
  registered run it registers a new pending waiter behind the waiters already there,
  with a timer of \<open>max(100, timeoutMs)\<close> milliseconds (\<open>timeoutMs\<close> is 15000 by
  default), or of 1 millisecond when that delay is \<open>NaN\<close> or above 2147483647, the
  largest delay \<open>setTimeout\<close> takes; the deregistration of the run resolves every waiter of the session true
  and empties the set; and when the timer fires first, the waiter resolves false and
  leaves the set, the other waiters staying.
\<close>

theorem waitForEnd_amended:
  "registry_ok r \<longrightarrow>
     (sessionId = [] \<or> ACTIVE_EMBEDDED_RUNS r sessionId = None \<longrightarrow>
        (case waitForEmbeddedPiRunEnd sessionId timeout r of
           (w, r') \<Rightarrow>
             resolved r' w = Some True
             \<and> EMBEDDED_RUN_WAITERS r' = EMBEDDED_RUN_WAITERS r \<and> timers r' = timers r))
   \<and> (sessionId \<noteq> [] \<and> ACTIVE_EMBEDDED_RUNS r sessionId = Some h \<longrightarrow>
        (case waitForEmbeddedPiRunEnd sessionId timeout r of
           (w, r') \<Rightarrow>
             resolved r' w = None
             \<and> waiters_of r' sessionId = waiters_of r sessionId @ [w]
             \<and> timers r' w = Some (case timeout of
                        None \<Rightarrow> 15000
                      | Some (JNum t) \<Rightarrow> if max 100 t \<le> 2147483647 then max 100 t else 1
                      | Some JNaN \<Rightarrow> 1
                      | Some JPosInfinity \<Rightarrow> 1
                      | Some JNegInfinity \<Rightarrow> 100)
             \<and> ACTIVE_EMBEDDED_RUNS r' = ACTIVE_EMBEDDED_RUNS r
             \<and> (\<forall>w' \<in> set (waiters_of r' sessionId).
                   resolved (deregister_run sessionId h r') w' = Some True)
             \<and> waiters_of (deregister_run sessionId h r') sessionId = []
             \<and> resolved (waiter_timeout sessionId w r') w = Some False
             \<and> waiters_of (waiter_timeout sessionId w r') sessionId = waiters_of r sessionId))"
proof (intro impI conjI)
  assume ok: "registry_ok r"
  let ?w = "nextWaiter r"
  have fresh: "resolved r ?w = None" using ok by (simp add: registry_ok_def)
  have notin: "?w \<notin> set (waiters_of r sessionId)"
    using ok by (auto simp: registry_ok_def)
  have pend: "\<forall>w \<in> set (waiters_of r sessionId). resolved r w = None"
    using ok by (auto simp: registry_ok_def)
  {
    assume "sessionId = [] \<or> ACTIVE_EMBEDDED_RUNS r sessionId = None"
    then show "case waitForEmbeddedPiRunEnd sessionId timeout r of
           (w, r') \<Rightarrow>
             resolved r' w = Some True
             \<and> EMBEDDED_RUN_WAITERS r' = EMBEDDED_RUN_WAITERS r \<and> timers r' = timers r"
      using fresh by (auto simp: waitForEmbeddedPiRunEnd_def Let_def resolve_resolved(1))
  }
  {
    assume a: "sessionId \<noteq> [] \<and> ACTIVE_EMBEDDED_RUNS r sessionId = Some h"
    let ?t = "setTimeout_delay (math_max_100 (case timeout of None \<Rightarrow> JNum 15000 | Some t \<Rightarrow> t))"
    let ?r' = "r\<lparr>nextWaiter := Suc ?w, timers := (timers r)(?w \<mapsto> ?t),
                 EMBEDDED_RUN_WAITERS :=
                   (EMBEDDED_RUN_WAITERS r)(sessionId \<mapsto> waiters_of r sessionId @ [?w])\<rparr>"
    have e: "waitForEmbeddedPiRunEnd sessionId timeout r = (?w, ?r')"
      using a notin by (simp add: waitForEmbeddedPiRunEnd_def Let_def)
    have ws: "waiters_of ?r' sessionId = waiters_of r sessionId @ [?w]"
      by (simp add: waiters_of_def)
    have act: "ACTIVE_EMBEDDED_RUNS ?r' sessionId = Some h" using a by simp
    have pend': "\<forall>w \<in> set (waiters_of ?r' sessionId). resolved ?r' w = None"
      unfolding ws using pend fresh by auto
    note dr = deregister_resolves_all [OF act pend']
    have to: "resolved (waiter_timeout sessionId ?w ?r') ?w = Some False"
      using fresh by (simp add: waiter_timeout_def drop_waiter_def Let_def resolve_resolved(1))
    have rm: "removeAll ?w (waiters_of r sessionId @ [?w]) = waiters_of r sessionId"
      using notin by simp
    have tw: "waiters_of (waiter_timeout sessionId ?w ?r') sessionId = waiters_of r sessionId"
      using notin by (simp add: waiter_timeout_def)
    show "case waitForEmbeddedPiRunEnd sessionId timeout r of
           (w, r') \<Rightarrow>
             resolved r' w = None
             \<and> waiters_of r' sessionId = waiters_of r sessionId @ [w]
             \<and> timers r' w = Some (case timeout of
                        None \<Rightarrow> 15000
                      | Some (JNum t) \<Rightarrow> if max 100 t \<le> 2147483647 then max 100 t else 1
                      | Some JNaN \<Rightarrow> 1
                      | Some JPosInfinity \<Rightarrow> 1
                      | Some JNegInfinity \<Rightarrow> 100)
             \<and> ACTIVE_EMBEDDED_RUNS r' = ACTIVE_EMBEDDED_RUNS r
             \<and> (\<forall>w' \<in> set (waiters_of r' sessionId).
                   resolved (deregister_run sessionId h r') w' = Some True)
             \<and> waiters_of (deregister_run sessionId h r') sessionId = []
             \<and> resolved (waiter_timeout sessionId w r') w = Some False
             \<and> waiters_of (waiter_timeout sessionId w r') sessionId = waiters_of r sessionId"
      unfolding e using fresh ws dr to tw by (simp add: timer_delay_cases)
  }
qed

lemma registry_ok_empty: "registry_ok empty_registry"
  by (simp add: registry_ok_def empty_registry_def waiters_of_def)

lemma registry_ok_register: "registry_ok r \<Longrightarrow> registry_ok (register_run sessionId h r)"
  by (simp add: registry_ok_def register_run_def)

lemma registry_ok_wait:
  assumes "registry_ok r"
  shows "registry_ok (snd (waitForEmbeddedPiRunEnd sessionId timeout r))"
proof (cases "sessionId = [] \<or> ACTIVE_EMBEDDED_RUNS r sessionId = None")
  case True
  let ?r0 = "r\<lparr>nextWaiter := Suc (nextWaiter r)\<rparr>"
  have e: "snd (waitForEmbeddedPiRunEnd sessionId timeout r) = resolve (nextWaiter r) True ?r0"
    using True by (auto simp: waitForEmbeddedPiRunEnd_def Let_def)
  have a: "\<forall>sid. \<forall>w \<in> set (waiters_of r sid). w < nextWaiter r \<and> resolved r w = None"
    and b: "\<forall>w. nextWaiter r \<le> w \<longrightarrow> resolved r w = None"
    using assms by (simp_all add: registry_ok_def)
  have c: "resolved (resolve (nextWaiter r) True ?r0) w = resolved r w"
    if "w < nextWaiter r \<or> Suc (nextWaiter r) \<le> w" for w
    using that by (auto simp: resolve_resolved(3))
  show ?thesis
    unfolding e registry_ok_def
  proof (intro conjI allI ballI impI)
    fix sid w assume "w \<in> set (waiters_of (resolve (nextWaiter r) True ?r0) sid)"
    then have "w \<in> set (waiters_of r sid)" by simp
    with a have "w < nextWaiter r" "resolved r w = None" by auto
    then show "w < nextWaiter (resolve (nextWaiter r) True ?r0)"
      and "resolved (resolve (nextWaiter r) True ?r0) w = None"
      using c [of w] by simp_all
  next
    fix w assume "nextWaiter (resolve (nextWaiter r) True ?r0) \<le> w"
    then have "Suc (nextWaiter r) \<le> w" by simp
    then show "resolved (resolve (nextWaiter r) True ?r0) w = None"
      using c [of w] b by simp
  qed
next
  case False
  then obtain h where h: "sessionId \<noteq> []" "ACTIVE_EMBEDDED_RUNS r sessionId = Some h" by auto
  have a: "\<forall>sid. \<forall>w \<in> set (waiters_of r sid). w < nextWaiter r \<and> resolved r w = None"
    and b: "\<forall>w. nextWaiter r \<le> w \<longrightarrow> resolved r w = None"
    using assms by (simp_all add: registry_ok_def)
  have notin: "nextWaiter r \<notin> set (waiters_of r sessionId)" using a by auto
  let ?r' = "r\<lparr>nextWaiter := Suc (nextWaiter r),
      timers := (timers r)(nextWaiter r \<mapsto>
        setTimeout_delay (math_max_100 (case timeout of None \<Rightarrow> JNum 15000 | Some t \<Rightarrow> t))),
      EMBEDDED_RUN_WAITERS :=
        (EMBEDDED_RUN_WAITERS r)(sessionId \<mapsto> waiters_of r sessionId @ [nextWaiter r])\<rparr>"
  have e: "snd (waitForEmbeddedPiRunEnd sessionId timeout r) = ?r'"
    using h notin by (simp add: waitForEmbeddedPiRunEnd_def Let_def)
  have ws: "waiters_of ?r' sid =
      (if sid = sessionId then waiters_of r sessionId @ [nextWaiter r] else waiters_of r sid)" for sid
    by (simp add: waiters_of_def)
  show ?thesis
    unfolding e registry_ok_def ws using a b by (auto simp: less_Suc_eq)
qed

lemma waiter_example_facts:
  "ACTIVE_EMBEDDED_RUNS one_waiter ''s1'' = Some idle_handle"
  "waiters_of one_waiter ''s1'' = [0]"
  "fst (waitForEmbeddedPiRunEnd ''s1'' (Some (JNum 50)) one_waiter) = 1"
  "ACTIVE_EMBEDDED_RUNS one_run ''s2'' = None"
  by code_simp+

theorem waitForEnd_amended_witness:
  "waiters_of two_waiters ''s1'' = [0, 1]
   \<and> resolved two_waiters 1 = None
   \<and> timers two_waiters 1 = Some 100
   \<and> resolved (deregister_run ''s1'' idle_handle two_waiters) 0 = Some True
   \<and> resolved (deregister_run ''s1'' idle_handle two_waiters) 1 = Some True
   \<and> resolved (waiter_timeout ''s1'' 1 two_waiters) 1 = Some False
   \<and> waiters_of (waiter_timeout ''s1'' 1 two_waiters) ''s1'' = [0]
   \<and> resolved (snd (waitForEmbeddedPiRunEnd ''s2'' None one_run))
        (fst (waitForEmbeddedPiRunEnd ''s2'' None one_run)) = Some True"
proof -
  have ok1: "registry_ok one_run"
    unfolding one_run_def by (rule registry_ok_register [OF registry_ok_empty])
  have ok2: "registry_ok one_waiter"
    unfolding one_waiter_def by (rule registry_ok_wait [OF ok1])
  have s: "''s1'' \<noteq> []" by simp
  have pr: "waitForEmbeddedPiRunEnd ''s1'' (Some (JNum 50)) one_waiter = (1, two_waiters)"
    using waiter_example_facts(3) by (simp add: two_waiters_def prod_eq_iff)
  note w2 = waitForEnd_amended [of one_waiter "''s1''" "Some (JNum 50)" idle_handle, THEN mp, OF ok2,
      THEN conjunct2, THEN mp, OF conjI [OF s waiter_example_facts(1)], unfolded pr]
  note w1 = waitForEnd_amended [of one_run "''s2''" None idle_handle, THEN mp, OF ok1,
      THEN conjunct1, THEN mp, OF disjI2 [OF waiter_example_facts(4)]]
  from w1 have n: "resolved (snd (waitForEmbeddedPiRunEnd ''s2'' None one_run))
        (fst (waitForEmbeddedPiRunEnd ''s2'' None one_run)) = Some True"
    by (simp add: case_prod_beta)
  from w2 n show ?thesis
    by (simp add: waiter_example_facts(2))
qed

text \<open>
  C9 as stated fails for the empty session id: a run is registered for it, and yet
  \<open>waitForEmbeddedPiRunEnd\<close> resolves true at once and registers no waiter, because
  the source first tests \<open>!sessionId\<close>.  It also fails for the time of the answer
  \<open>false\<close>: with a run registered for \<open>s1\<close>, a wait with \<open>timeoutMs\<close> 3000000000
  arms a timer of 1 millisecond, long before the timeout has elapsed, and a wait with
  \<open>timeoutMs\<close> 50 arms a timer of 100 milliseconds.
\<close>

theorem waitForEnd_counterexample:
  "ACTIVE_EMBEDDED_RUNS empty_id_run [] = Some idle_handle
   \<and> resolved (snd (waitForEmbeddedPiRunEnd [] None empty_id_run))
        (fst (waitForEmbeddedPiRunEnd [] None empty_id_run)) = Some True
   \<and> waiters_of (snd (waitForEmbeddedPiRunEnd [] None empty_id_run)) [] = []
   \<and> timers (snd (waitForEmbeddedPiRunEnd ''s1'' (Some (JNum 3000000000)) one_run)) 0 = Some 1
   \<and> timers (snd (waitForEmbeddedPiRunEnd ''s1'' (Some (JNum 50)) one_run)) 0 = Some 100"
  by code_simp

section \<open>Rotation exhausted: failover signal\<close>

lemma advance_from_exhausted:
  assumes "\<forall>i. nextIndex \<le> i \<and> i < length (profileCandidates env) \<longrightarrow>
             getApiKeyForModel env (profileCandidates env ! i) = None \<and>
             \<not> (truthy (profileCandidates env ! i) \<and>
                profileCandidates env ! i = explicitProfileId env)"
  shows "advance_from env nextIndex st = Inr (False, st)"
  using assms
proof (induction env nextIndex st rule: advance_from.induct)
  case (1 env nextIndex st)
  show ?case
  proof (cases "nextIndex < length (profileCandidates env)")
    case False
    then show ?thesis by (subst advance_from.simps) simp
  next
    case True
    have none: "getApiKeyForModel env (profileCandidates env ! nextIndex) = None"
      and unpinned: "\<not> (truthy (profileCandidates env ! nextIndex) \<and>
                profileCandidates env ! nextIndex = explicitProfileId env)"
      using "1.prems" True by auto
    have fails: "applyApiKeyInfo env (profileCandidates env ! nextIndex) st =
                   Inl (CredentialError (profileCandidates env ! nextIndex))"
      by (simp add: applyApiKeyInfo_def none)
    have rest: "advance_from env (nextIndex + 1) st = Inr (False, st)"
      by (rule "1.IH" [OF True refl fails unpinned]) (use "1.prems" in auto)
    show ?thesis
      by (subst advance_from.simps) (use True fails unpinned rest in \<open>simp add: Let_def\<close>)
  qed
qed

text \<open>After a completed attempt that warrants rotation, with no thinking level left to
  fall back to and no further profile to rotate to, the loop throws a \<open>FailoverError\<close>
  when model fallbacks are configured and otherwise returns the result of the run.\<close>

lemma completed_attempt_exhausted:
  assumes "shouldRotate env att"
    and "\<not> (truthy (pickFallbackThinkingLevel (helpers env)
                (case lastAssistant att of Some a \<Rightarrow> errorMessage a | None \<Rightarrow> None)
                (attemptedThinking st)) \<and> \<not> aborted att)"
    and "\<forall>i. profileIndex st + 1 \<le> i \<and> i < length (profileCandidates env) \<longrightarrow>
             getApiKeyForModel env (profileCandidates env ! i) = None \<and>
             \<not> (truthy (profileCandidates env ! i) \<and>
                profileCandidates env ! i = explicitProfileId env)"
  shows "after_completed_attempt env att st =
           (if fallbackConfigured env then
              Throw (Failover
                \<lparr>err_message = failoverMessage env att,
                 err_reason = or_unknown (assistantFailoverReason env att),
                 err_provider = run_provider env,
                 err_model = modelId env,
                 err_profileId = lastProfileId st,
                 err_status =
                   (case resolveFailoverStatus (helpers env)
                           (or_unknown (assistantFailoverReason env att)) of
                      Some c \<Rightarrow> Some c
                    | None \<Rightarrow>
                        if isTimeoutErrorMessage (helpers env) (failoverMessage env att)
                        then Some 408 else None)\<rparr>)
            else
              Finish (errorPayload env att)
                (if truthy (lastProfileId st)
                 then markAuthProfileFailure
                        (if timedOut att \<or> assistantFailoverReason env att = Some ''timeout''
                         then ''timeout'' else or_unknown (assistantFailoverReason env att)) st
                 else st))"
proof -
  define st1 where "st1 =
    (if truthy (lastProfileId st)
     then markAuthProfileFailure
            (if timedOut att \<or> assistantFailoverReason env att = Some ''timeout''
             then ''timeout'' else or_unknown (assistantFailoverReason env att)) st
     else st)"
  have idx: "profileIndex st1 = profileIndex st" and pid: "lastProfileId st1 = lastProfileId st"
    by (simp_all add: st1_def markAuthProfileFailure_def split: option.splits)
  have adv: "advanceAuthProfile env st1 = Inr (False, st1)"
    unfolding advanceAuthProfile_def idx by (rule advance_from_exhausted) (use assms(3) in simp)
  show ?thesis
    using assms(1,2) adv pid
    by (simp add: after_completed_attempt_def Let_def st1_def [symmetric])
qed

text \<open>Claim C4.  When rotation finds no further profile after a failure of the provider
  call that warrants rotation, and model fallbacks are configured, the claim asks for a
  \<open>FailoverError\<close> carrying reason, provider, model, profile id and status.  With one
  profile and fallbacks configured, the loop does so when the attempt completed and its
  last assistant message carries the failure.  When the prompt itself threw the same
  failure, the loop marks the profile, asks \<open>advanceAuthProfile\<close> for the next one, finds
  none, and rethrows the error of the prompt as it is: no \<open>FailoverError\<close> is
  constructed on this branch.\<close>

theorem prompt_error_rethrown_without_failover:
  "after_attempt (one_profile_env True) prompt_threw first_profile = Throw (PromptError ''rate limit'')
   \<and> after_attempt (one_profile_env True) assistant_failed first_profile =
       Throw (Failover \<lparr>err_message = ''rate limit'', err_reason = ''rate_limit'',
                        err_provider = ''anthropic'', err_model = ''m1'',
                        err_profileId = Some ''p1'', err_status = Some 429\<rparr>)"
  by code_simp

section \<open>Interrupt mode\<close>

lemma clearCommandLane_queue:
  "snd (clearCommandLane lane ls) lane = Some s \<Longrightarrow> lane_queue s = []"
  by (auto simp: clearCommandLane_def split: option.splits)

lemma clearCommandLane_size:
  "getQueueSize lane (snd (clearCommandLane lane ls)) =
     (case ls lane of Some s \<Rightarrow> lane_active s | None \<Rightarrow> 0)"
  by (auto simp: clearCommandLane_def getQueueSize_def split: option.splits)

lemma clearCommandLane_other:
  "other \<noteq> lane \<Longrightarrow> snd (clearCommandLane lane ls) other = ls other"
  by (auto simp: clearCommandLane_def split: option.splits)

lemma abortEmbeddedPiRun_signals:
  "ACTIVE_EMBEDDED_RUNS r sid = Some h \<Longrightarrow>
   ACTIVE_EMBEDDED_RUNS (snd (abortEmbeddedPiRun sid r)) sid = Some (h\<lparr>abortCalls := Suc (abortCalls h)\<rparr>)"
  by (simp add: abortEmbeddedPiRun_def)

lemma abortEmbeddedPiRun_other:
  "other \<noteq> sid \<Longrightarrow>
   ACTIVE_EMBEDDED_RUNS (snd (abortEmbeddedPiRun sid r)) other = ACTIVE_EMBEDDED_RUNS r other"
  by (simp add: abortEmbeddedPiRun_def split: option.splits)

lemma dispatchReply_interrupt_state:
  "snd (dispatchReply queue_interrupt sessionKey sid body queued w) =
     (if 0 < getQueueSize (resolveEmbeddedSessionLane (session_or_id sessionKey sid)) (lanes w)
      then w\<lparr>lanes := snd (clearCommandLane
                            (resolveEmbeddedSessionLane (session_or_id sessionKey sid)) (lanes w)),
             runs := snd (abortEmbeddedPiRun sid (runs w))\<rparr>
      else w)"
  by (simp add: dispatchReply_def Let_def split_beta)

lemma dispatchReply_interrupt_call:
  "arg_shouldSteer (fst (dispatchReply queue_interrupt sessionKey sid body queued w)) = False"
  "arg_shouldFollowup (fst (dispatchReply queue_interrupt sessionKey sid body queued w)) = False"
  "arg_commandBody (fst (dispatchReply queue_interrupt sessionKey sid body queued w)) = body"
  "arg_prompt (fst (dispatchReply queue_interrupt sessionKey sid body queued w)) = queued"
  by (simp_all add: dispatchReply_def Let_def split_beta)


lemma busy_gateway_facts:
  "ACTIVE_EMBEDDED_RUNS (runs busy_gateway) ''s1'' = Some idle_handle"
  "resolveEmbeddedSessionLane (session_or_id None ''s1'') = ''session:s1''"
  "getQueueSize ''session:s1'' (lanes busy_gateway) = 3"
  "lanes busy_gateway ''session:s1'' = Some \<lparr>lane_queue = [''t1'', ''t2''], lane_active = 1\<rparr>"
  by code_simp+





end
